theory Spec2Isabelle
  imports Complex_Main
begin

section \<open>Simulation core of the Arkanoid game (src/Arkanoid.c, src/Draft1.c)\<close>

text \<open>
  The two source files hold the same program; the model follows \<^verbatim>\<open>src/Arkanoid.c\<close>.
  The C globals become one record \<open>state\<close> that every function takes and returns.
  C \<^verbatim>\<open>float\<close> quantities are modelled as exact reals and C \<^verbatim>\<open>int\<close> quantities as
  unbounded integers: the score is at most 5000 in a round, and every coordinate of
  the paddle and of the brick grid is a small integer.
  The raylib functions the code calls are not part of the repository; they are
  the fields of the record \<open>host\<close>, and the theorems hold for every host.
\<close>

subsection \<open>Data model\<close>

abbreviation PLAYER_MAX_LIFE :: int where "PLAYER_MAX_LIFE \<equiv> 3"
abbreviation LINES_OF_BRICKS :: nat where "LINES_OF_BRICKS \<equiv> 5"
abbreviation BRICKS_PER_LINE :: nat where "BRICKS_PER_LINE \<equiv> 10"
abbreviation BALLS_MAX :: nat where "BALLS_MAX \<equiv> 5"
abbreviation POWERUPS_MAX :: nat where "POWERUPS_MAX \<equiv> 10"
abbreviation screenWidth :: real where "screenWidth \<equiv> 960"
abbreviation screenHeight :: real where "screenHeight \<equiv> 720"

datatype t_gamestate = GAME_TITLE | GAME_PLAYING | GAME_OVER | GAME_WIN

datatype t_powerup_type = POWERUP_NONE | POWERUP_EXPAND | POWERUP_EXTRA_LIFE | POWERUP_MULTI_BALL

text \<open>raylib's \<^verbatim>\<open>Vector2\<close> and \<^verbatim>\<open>Rectangle\<close>.\<close>

record vector2 =
  vec_x :: real
  vec_y :: real

record rectangle =
  rec_x :: real
  rec_y :: real
  rec_width :: real
  rec_height :: real

text \<open>
  The structs \<^verbatim>\<open>t_player\<close>, \<^verbatim>\<open>t_ball\<close>, \<^verbatim>\<open>t_brick\<close> and \<^verbatim>\<open>t_powerup\<close>. A field
  \<^verbatim>\<open>f\<close> of the C struct is \<open>p_f\<close>, \<open>b_f\<close>, \<open>br_f\<close> or \<open>pu_f\<close> here, since record
  fields share one name space.
\<close>

record t_player =
  p_pos :: vector2
  p_size :: vector2
  p_life :: int
  p_speed :: real
  p_expanded :: bool
  p_expand_timer :: real

record t_ball =
  b_pos :: vector2
  b_spd :: vector2
  b_radius :: real
  b_active :: bool

record t_brick =
  br_rect :: rectangle
  br_active :: bool

record t_powerup =
  pu_pos :: vector2
  pu_spd :: vector2
  pu_type :: t_powerup_type
  pu_active :: bool

text \<open>
  The globals. The arrays are lists whose length is the array's capacity;
  \<open>bricks\<close> is the list of the rows. \<open>rand_calls\<close> and \<open>grv_calls\<close> count the
  calls of \<^verbatim>\<open>rand()\<close> and of \<^verbatim>\<open>GetRandomValue\<close> made so far: the hidden state of
  the two generators, seeded once in \<^verbatim>\<open>main\<close>.
\<close>

record state =
  player :: t_player
  balls :: "t_ball list"
  ballsCount :: int
  bricks :: "t_brick list list"
  brickSize :: vector2
  gameState :: t_gamestate
  pause :: bool
  score :: int
  powerups :: "t_powerup list"
  waiting_for_launch :: bool
  rand_calls :: nat
  grv_calls :: nat

text \<open>
  The host: the two collision tests of raylib, the sequence of values that
  \<^verbatim>\<open>rand()\<close> returns after the seeding, and \<^verbatim>\<open>GetRandomValue(min, max)\<close> as a
  function of the number of the call.
\<close>

record host =
  CheckCollisionCircleRec :: "vector2 \<Rightarrow> real \<Rightarrow> rectangle \<Rightarrow> bool"
  CheckCollisionRecs :: "rectangle \<Rightarrow> rectangle \<Rightarrow> bool"
  rand :: "nat \<Rightarrow> nat"
  GetRandomValue :: "nat \<Rightarrow> int \<Rightarrow> int \<Rightarrow> int"

text \<open>What the host samples once per frame: the keys and the frame time.\<close>

record input =
  key_space_pressed :: bool
  key_enter_pressed :: bool
  key_p_pressed :: bool
  key_left_down :: bool
  key_right_down :: bool
  frame_time :: real

subsection \<open>Array helpers\<close>

text \<open>The index of the first element that satisfies \<open>P\<close>: a scan with \<^verbatim>\<open>break\<close>.\<close>

fun first_index :: "('a \<Rightarrow> bool) \<Rightarrow> 'a list \<Rightarrow> nat option" where
  "first_index P [] = None"
| "first_index P (a # as) =
     (if P a then Some 0 else map_option Suc (first_index P as))"

definition paddleRect :: "t_player \<Rightarrow> rectangle" where
  "paddleRect p =
     \<lparr>rec_x = vec_x (p_pos p), rec_y = vec_y (p_pos p),
      rec_width = vec_x (p_size p), rec_height = vec_y (p_size p)\<rparr>"

subsection \<open>init_game\<close>

definition init_brick :: "vector2 \<Rightarrow> nat \<Rightarrow> nat \<Rightarrow> t_brick" where
  "init_brick bsz y x =
     \<lparr>br_rect = \<lparr>rec_x = real x * vec_x bsz + 7, rec_y = real y * vec_y bsz + 70,
                 rec_width = vec_x bsz - 12, rec_height = vec_y bsz - 10\<rparr>,
      br_active = True\<rparr>"

definition init_game :: "state \<Rightarrow> state" where
  "init_game s =
     (let bsz = \<lparr>vec_x = screenWidth / real BRICKS_PER_LINE, vec_y = 38\<rparr>;
          psz = \<lparr>vec_x = 140, vec_y = 22\<rparr>;
          ppos = \<lparr>vec_x = screenWidth / 2 - vec_x psz / 2, vec_y = screenHeight - 50\<rparr>;
          p = \<lparr>p_pos = ppos, p_size = psz, p_life = PLAYER_MAX_LIFE, p_speed = 8,
               p_expanded = False, p_expand_timer = 0\<rparr>;
          b0 = \<lparr>b_pos = \<lparr>vec_x = vec_x ppos + vec_x psz / 2, vec_y = vec_y ppos - 12 - 2\<rparr>,
                b_spd = \<lparr>vec_x = 0, vec_y = 0\<rparr>, b_radius = 12, b_active = False\<rparr>
      in s\<lparr>brickSize := bsz,
           player := p,
           balls := (map (\<lambda>b. b\<lparr>b_active := False\<rparr>) (balls s))[0 := b0],
           ballsCount := 1,
           bricks := map (\<lambda>y. map (\<lambda>x. init_brick bsz y x) [0..<BRICKS_PER_LINE])
                       [0..<LINES_OF_BRICKS],
           powerups := map (\<lambda>p. p\<lparr>pu_active := False\<rparr>) (powerups s),
           score := 0,
           pause := False,
           waiting_for_launch := True\<rparr>)"

subsection \<open>spawn_powerup, apply_powerup, reset_balls\<close>

definition spawn_powerup :: "host \<Rightarrow> vector2 \<Rightarrow> state \<Rightarrow> state" where
  "spawn_powerup h pos s =
     (let r = rand h (rand_calls s) mod 100;
          type = (if r < 40 then POWERUP_EXPAND
                  else if r < 70 then POWERUP_EXTRA_LIFE
                  else POWERUP_MULTI_BALL);
          s1 = s\<lparr>rand_calls := Suc (rand_calls s)\<rparr>
      in case first_index (\<lambda>p. \<not> pu_active p) (take POWERUPS_MAX (powerups s)) of
           None \<Rightarrow> s1
         | Some i \<Rightarrow>
             s1\<lparr>powerups := (powerups s)
                  [i := \<lparr>pu_pos = pos, pu_spd = \<lparr>vec_x = 0, vec_y = 2\<rparr>,
                         pu_type = type, pu_active = True\<rparr>]\<rparr>)"

text \<open>
  One pass of the outer loop of the multi-ball case, for the ball \<open>i\<close>: the first
  inactive slot, if there is one, receives a copy of the ball.
\<close>

definition clone_ball :: "host \<Rightarrow> nat \<Rightarrow> state \<Rightarrow> state" where
  "clone_ball h i s =
     (if b_active (balls s ! i) then
        (case first_index (\<lambda>b. \<not> b_active b) (take BALLS_MAX (balls s)) of
           None \<Rightarrow> s
         | Some j \<Rightarrow>
             (let bi = balls s ! i;
                  sx = vec_x (b_spd bi) * (- 1);
                  sy = vec_y (b_spd bi) * (if GetRandomValue h (grv_calls s) 0 1 = 0 then 1 else - 1)
              in s\<lparr>balls := (balls s)
                     [j := bi\<lparr>b_spd := \<lparr>vec_x = sx, vec_y = sy\<rparr>, b_active := True\<rparr>],
                   ballsCount := ballsCount s + 1,
                   grv_calls := Suc (grv_calls s)\<rparr>))
      else s)"

text \<open>
  The outer loop \<^verbatim>\<open>for (i = 0; i < BALLS_MAX && ballsCount < 3; i++)\<close>, over the
  indices still to visit: it ends as soon as the counter reaches 3.
\<close>

fun multi_ball :: "host \<Rightarrow> nat list \<Rightarrow> state \<Rightarrow> state" where
  "multi_ball h [] s = s"
| "multi_ball h (i # is) s =
     (if ballsCount s < 3 then multi_ball h is (clone_ball h i s) else s)"

definition apply_powerup :: "host \<Rightarrow> t_powerup_type \<Rightarrow> state \<Rightarrow> state" where
  "apply_powerup h type s =
     (case type of
        POWERUP_EXPAND \<Rightarrow>
          s\<lparr>player := (player s)\<lparr>p_expanded := True, p_expand_timer := 10,
                                  p_size := (p_size (player s))\<lparr>vec_x := 210\<rparr>\<rparr>\<rparr>
      | POWERUP_EXTRA_LIFE \<Rightarrow> s\<lparr>player := (player s)\<lparr>p_life := p_life (player s) + 1\<rparr>\<rparr>
      | POWERUP_MULTI_BALL \<Rightarrow> multi_ball h [0..<BALLS_MAX] s
      | POWERUP_NONE \<Rightarrow> s)"

definition reset_balls :: "vector2 \<Rightarrow> state \<Rightarrow> state" where
  "reset_balls pos s =
     s\<lparr>balls := (map (\<lambda>b. b\<lparr>b_active := False\<rparr>) (balls s))
                  [0 := \<lparr>b_pos = pos, b_spd = \<lparr>vec_x = 0, vec_y = 0\<rparr>,
                         b_radius = 12, b_active = False\<rparr>],
       ballsCount := 1\<rparr>"

subsection \<open>update_game: the playing phase, block by block\<close>

definition paddle_control :: "input \<Rightarrow> state \<Rightarrow> state" where
  "paddle_control inp s =
     (let p = player s;
          x0 = vec_x (p_pos p);
          x1 = (if key_left_down inp then x0 - p_speed p else x0);
          x2 = (if key_right_down inp then x1 + p_speed p else x1);
          x3 = (if x2 < 0 then 0 else x2);
          x4 = (if x3 + vec_x (p_size p) > screenWidth then screenWidth - vec_x (p_size p) else x3)
      in s\<lparr>player := p\<lparr>p_pos := (p_pos p)\<lparr>vec_x := x4\<rparr>\<rparr>\<rparr>)"

definition expand_decay :: "input \<Rightarrow> state \<Rightarrow> state" where
  "expand_decay inp s =
     (let p = player s in
      if p_expanded p then
        (let t = p_expand_timer p - frame_time inp in
         if t \<le> 0
         then s\<lparr>player := p\<lparr>p_expand_timer := t, p_expanded := False,
                             p_size := (p_size p)\<lparr>vec_x := 140\<rparr>\<rparr>\<rparr>
         else s\<lparr>player := p\<lparr>p_expand_timer := t\<rparr>\<rparr>)
      else s)"

definition launch_ball :: "host \<Rightarrow> input \<Rightarrow> state \<Rightarrow> state" where
  "launch_ball h inp s =
     (let b0 = balls s ! 0; p = player s in
      if \<not> b_active b0 then
        (let b1 = b0\<lparr>b_pos := \<lparr>vec_x = vec_x (p_pos p) + vec_x (p_size p) / 2,
                               vec_y = vec_y (p_pos p) - b_radius b0 - 2\<rparr>\<rparr>
         in if key_space_pressed inp then
              s\<lparr>balls := (balls s)
                   [0 := b1\<lparr>b_active := True,
                           b_spd := \<lparr>vec_x = 7 * (if GetRandomValue h (grv_calls s) 0 1 = 0
                                                   then - 1 else 1),
                                     vec_y = - 7\<rparr>\<rparr>],
                waiting_for_launch := False,
                grv_calls := Suc (grv_calls s)\<rparr>
            else s\<lparr>balls := (balls s)[0 := b1]\<rparr>)
      else s)"

text \<open>The steps of the loop over the balls that touch the ball alone.\<close>

definition move_ball :: "t_ball \<Rightarrow> t_ball" where
  "move_ball b =
     b\<lparr>b_pos := \<lparr>vec_x = vec_x (b_pos b) + vec_x (b_spd b),
                 vec_y = vec_y (b_pos b) + vec_y (b_spd b)\<rparr>\<rparr>"

definition wall_reflect :: "t_ball \<Rightarrow> t_ball" where
  "wall_reflect b =
     (let b1 = (if vec_x (b_pos b) - b_radius b \<le> 0 \<or> vec_x (b_pos b) + b_radius b \<ge> screenWidth
                then b\<lparr>b_spd := (b_spd b)\<lparr>vec_x := vec_x (b_spd b) * (- 1)\<rparr>\<rparr> else b)
      in if vec_y (b_pos b1) - b_radius b1 \<le> 0
         then b1\<lparr>b_spd := (b_spd b1)\<lparr>vec_y := vec_y (b_spd b1) * (- 1)\<rparr>\<rparr> else b1)"

definition paddle_bounce :: "host \<Rightarrow> t_player \<Rightarrow> t_ball \<Rightarrow> t_ball" where
  "paddle_bounce h p b =
     (if CheckCollisionCircleRec h (b_pos b) (b_radius b) (paddleRect p) then
        (let hitPos = (vec_x (b_pos b) - (vec_x (p_pos p) + vec_x (p_size p) / 2))
                        / (vec_x (p_size p) / 2)
         in b\<lparr>b_spd := \<lparr>vec_x = 6 * hitPos, vec_y = vec_y (b_spd b) * (- 1)\<rparr>\<rparr>)
      else b)"

definition ball_missed :: "nat \<Rightarrow> state \<Rightarrow> state" where
  "ball_missed b s =
     (let bl = balls s ! b in
      if vec_y (b_pos bl) - b_radius bl > screenHeight
      then s\<lparr>balls := (balls s)[b := bl\<lparr>b_active := False\<rparr>], ballsCount := ballsCount s - 1\<rparr>
      else s)"

text \<open>The body of the two loops over the bricks, for the ball \<open>b\<close> and the cell \<open>(y, x)\<close>.\<close>

definition brick_hit :: "host \<Rightarrow> nat \<Rightarrow> nat \<Rightarrow> nat \<Rightarrow> state \<Rightarrow> bool" where
  "brick_hit h b y x s =
     (br_active (bricks s ! y ! x) \<and>
      CheckCollisionCircleRec h (b_pos (balls s ! b)) (b_radius (balls s ! b))
        (br_rect (bricks s ! y ! x)))"

definition brick_test :: "host \<Rightarrow> nat \<Rightarrow> nat \<Rightarrow> nat \<Rightarrow> state \<Rightarrow> state" where
  "brick_test h b y x s =
     (if brick_hit h b y x s then
        (let br = bricks s ! y ! x; bl = balls s ! b;
             s1 = s\<lparr>bricks := (bricks s)[y := (bricks s ! y)[x := br\<lparr>br_active := False\<rparr>]],
                    balls := (balls s)
                      [b := bl\<lparr>b_spd := (b_spd bl)\<lparr>vec_y := vec_y (b_spd bl) * (- 1)\<rparr>\<rparr>],
                    score := score s + 100,
                    grv_calls := Suc (grv_calls s)\<rparr>
         in if GetRandomValue h (grv_calls s) 1 100 \<le> 22
            then spawn_powerup h
                   \<lparr>vec_x = rec_x (br_rect br) + vec_x (brickSize s) / 2,
                    vec_y = rec_y (br_rect br) + vec_y (brickSize s) / 2\<rparr> s1
            else s1)
      else s)"

definition ball_bricks :: "host \<Rightarrow> nat \<Rightarrow> state \<Rightarrow> state" where
  "ball_bricks h b s =
     fold (\<lambda>y. fold (\<lambda>x. brick_test h b y x) [0..<BRICKS_PER_LINE]) [0..<LINES_OF_BRICKS] s"

definition ball_step :: "host \<Rightarrow> nat \<Rightarrow> state \<Rightarrow> state" where
  "ball_step h b s =
     (if \<not> b_active (balls s ! b) then s
      else
        (let bl = paddle_bounce h (player s) (wall_reflect (move_ball (balls s ! b)))
         in ball_bricks h b (ball_missed b (s\<lparr>balls := (balls s)[b := bl]\<rparr>))))"

definition life_loss :: "state \<Rightarrow> state" where
  "life_loss s =
     (let anyBallActive = list_ex b_active (take BALLS_MAX (balls s)) in
      if \<not> anyBallActive \<and> \<not> waiting_for_launch s then
        (let p = (player s)\<lparr>p_life := p_life (player s) - 1\<rparr>;
             s1 = s\<lparr>player := p\<rparr>
         in if p_life p \<le> 0 then s1\<lparr>gameState := GAME_OVER\<rparr>
            else (reset_balls
                    \<lparr>vec_x = vec_x (p_pos p) + vec_x (p_size p) / 2,
                     vec_y = vec_y (p_pos p) - b_radius (balls s ! 0) - 2\<rparr> s1)
                 \<lparr>waiting_for_launch := True\<rparr>)
      else s)"

definition powerup_step :: "host \<Rightarrow> nat \<Rightarrow> state \<Rightarrow> state" where
  "powerup_step h i s =
     (if \<not> pu_active (powerups s ! i) then s
      else
        (let pu = powerups s ! i;
             pu1 = pu\<lparr>pu_pos := (pu_pos pu)\<lparr>vec_y := vec_y (pu_pos pu) + vec_y (pu_spd pu)\<rparr>\<rparr>;
             s1 = s\<lparr>powerups := (powerups s)[i := pu1]\<rparr>;
             puRect = \<lparr>rec_x = vec_x (pu_pos pu1) - 14, rec_y = vec_y (pu_pos pu1) - 14,
                       rec_width = 28, rec_height = 28\<rparr>;
             s2 = (if CheckCollisionRecs h (paddleRect (player s1)) puRect
                   then (let s' = apply_powerup h (pu_type pu1) s1
                         in s'\<lparr>powerups := (powerups s')
                                 [i := (powerups s' ! i)\<lparr>pu_active := False\<rparr>]\<rparr>)
                   else s1)
         in if vec_y (pu_pos (powerups s2 ! i)) > screenHeight
            then s2\<lparr>powerups := (powerups s2)[i := (powerups s2 ! i)\<lparr>pu_active := False\<rparr>]\<rparr>
            else s2))"

definition win_check :: "state \<Rightarrow> state" where
  "win_check s =
     (let bricksLeft = list_ex (list_ex br_active) (bricks s) in
      if \<not> bricksLeft then s\<lparr>gameState := GAME_WIN\<rparr> else s)"

text \<open>The body of \<^verbatim>\<open>if (!pause)\<close>: one simulation step.\<close>

definition simulate :: "host \<Rightarrow> input \<Rightarrow> state \<Rightarrow> state" where
  "simulate h inp s =
     win_check
       (fold (powerup_step h) [0..<POWERUPS_MAX]
          (life_loss
             (fold (ball_step h) [0..<BALLS_MAX]
                (launch_ball h inp (expand_decay inp (paddle_control inp s))))))"

definition update_game :: "host \<Rightarrow> input \<Rightarrow> state \<Rightarrow> state" where
  "update_game h inp s =
     (case gameState s of
        GAME_TITLE \<Rightarrow>
          (if key_space_pressed inp \<or> key_enter_pressed inp
           then (init_game s)\<lparr>gameState := GAME_PLAYING\<rparr> else s)
      | GAME_PLAYING \<Rightarrow>
          (let s1 = (if key_p_pressed inp then s\<lparr>pause := \<not> pause s\<rparr> else s)
           in if \<not> pause s1 then simulate h inp s1 else s1)
      | GAME_OVER \<Rightarrow>
          (if key_enter_pressed inp \<or> key_space_pressed inp
           then s\<lparr>gameState := GAME_TITLE\<rparr> else s)
      | GAME_WIN \<Rightarrow>
          (if key_enter_pressed inp \<or> key_space_pressed inp
           then s\<lparr>gameState := GAME_TITLE\<rparr> else s))"

subsection \<open>The process: static initialisers, main, frames\<close>

definition static_state :: state where
  "static_state =
     \<lparr>player = \<lparr>p_pos = \<lparr>vec_x = 0, vec_y = 0\<rparr>, p_size = \<lparr>vec_x = 0, vec_y = 0\<rparr>,
                p_life = 0, p_speed = 0, p_expanded = False, p_expand_timer = 0\<rparr>,
      balls = replicate BALLS_MAX
                \<lparr>b_pos = \<lparr>vec_x = 0, vec_y = 0\<rparr>, b_spd = \<lparr>vec_x = 0, vec_y = 0\<rparr>,
                 b_radius = 0, b_active = False\<rparr>,
      ballsCount = 1,
      bricks = replicate LINES_OF_BRICKS (replicate BRICKS_PER_LINE
                 \<lparr>br_rect = \<lparr>rec_x = 0, rec_y = 0, rec_width = 0, rec_height = 0\<rparr>,
                  br_active = False\<rparr>),
      brickSize = \<lparr>vec_x = 0, vec_y = 0\<rparr>,
      gameState = GAME_TITLE,
      pause = False,
      score = 0,
      powerups = replicate POWERUPS_MAX
                   \<lparr>pu_pos = \<lparr>vec_x = 0, vec_y = 0\<rparr>, pu_spd = \<lparr>vec_x = 0, vec_y = 0\<rparr>,
                    pu_type = POWERUP_NONE, pu_active = False\<rparr>,
      waiting_for_launch = True,
      rand_calls = 0,
      grv_calls = 0\<rparr>"

text \<open>
  \<^verbatim>\<open>main\<close> calls \<^verbatim>\<open>init_game\<close> once and then \<^verbatim>\<open>update_game\<close> once per frame:
  \<open>run h ins\<close> is the state after the frames whose inputs are \<open>ins\<close>.
\<close>

definition run :: "host \<Rightarrow> input list \<Rightarrow> state" where
  "run h ins = fold (update_game h) ins (init_game static_state)"

subsection \<open>A concrete host\<close>

text \<open>
  Modelled from the spec: the two collision tests of raylib, which are not under src/.
  \<open>circleIntersectsRect\<close> is "true iff the circle and axis-aligned rectangle overlap
  (standard closest-point distance test)" and \<open>rectIntersectsRect\<close> is the "standard
  AABB overlap test", both with "touching edges as overlapping (inclusive bounds)".
\<close>

definition circleIntersectsRect :: "vector2 \<Rightarrow> real \<Rightarrow> rectangle \<Rightarrow> bool" where
  "circleIntersectsRect c r rct =
     (let cx = max (rec_x rct) (min (vec_x c) (rec_x rct + rec_width rct));
          cy = max (rec_y rct) (min (vec_y c) (rec_y rct + rec_height rct));
          dx = vec_x c - cx;
          dy = vec_y c - cy
      in dx * dx + dy * dy \<le> r * r)"

definition rectIntersectsRect :: "rectangle \<Rightarrow> rectangle \<Rightarrow> bool" where
  "rectIntersectsRect a b =
     (rec_x a \<le> rec_x b + rec_width b \<and> rec_x b \<le> rec_x a + rec_width a \<and>
      rec_y a \<le> rec_y b + rec_height b \<and> rec_y b \<le> rec_y a + rec_height a)"

text \<open>
  Modelled from the spec: the randomness interface, "a uniform integer generator over
  an inclusive range". \<open>spec_host rs gs\<close> is the host whose \<^verbatim>\<open>rand()\<close> returns the
  sequence \<open>rs\<close> and whose \<^verbatim>\<open>GetRandomValue(min, max)\<close> maps the raw sequence \<open>gs\<close>
  into the range.
\<close>

definition spec_host :: "(nat \<Rightarrow> nat) \<Rightarrow> (nat \<Rightarrow> nat) \<Rightarrow> host" where
  "spec_host rs gs =
     \<lparr>CheckCollisionCircleRec = circleIntersectsRect,
      CheckCollisionRecs = rectIntersectsRect,
      rand = rs,
      GetRandomValue = (\<lambda>k lo hi. lo + int (gs k) mod (hi - lo + 1))\<rparr>"

text \<open>The input of a frame in which no key is held, and its variants.\<close>

definition no_keys :: input where
  "no_keys =
     \<lparr>key_space_pressed = False, key_enter_pressed = False, key_p_pressed = False,
      key_left_down = False, key_right_down = False, frame_time = 1 / 60\<rparr>"

definition press_space :: input where
  "press_space = no_keys\<lparr>key_space_pressed := True\<rparr>"

definition press_enter :: input where
  "press_enter = no_keys\<lparr>key_enter_pressed := True\<rparr>"

definition hold_left :: input where
  "hold_left = no_keys\<lparr>key_left_down := True\<rparr>"

definition hold_right :: input where
  "hold_right = no_keys\<lparr>key_right_down := True\<rparr>"


subsection \<open>Notions the properties are stated with\<close>

definition active_bricks :: "state \<Rightarrow> nat" where
  "active_bricks s = length (filter br_active (concat (bricks s)))"

definition wf_state :: "state \<Rightarrow> bool" where
  "wf_state s \<longleftrightarrow>
     length (balls s) = BALLS_MAX \<and> length (powerups s) = POWERUPS_MAX \<and>
     length (bricks s) = LINES_OF_BRICKS \<and> list_all (\<lambda>row. length row = BRICKS_PER_LINE) (bricks s)"

definition paddle_row :: "state \<Rightarrow> real \<times> real" where
  "paddle_row s = (vec_y (p_pos (player s)), vec_y (p_size (player s)))"

definition bricks_decay :: "state \<Rightarrow> state \<Rightarrow> bool" where
  "bricks_decay s s' \<longleftrightarrow>
     (\<forall>y x. br_rect (bricks s' ! y ! x) = br_rect (bricks s ! y ! x) \<and>
            (br_active (bricks s' ! y ! x) \<longrightarrow> br_active (bricks s ! y ! x)))"

definition shape :: "state \<Rightarrow> nat \<times> nat \<times> nat list" where
  "shape s = (length (balls s), length (powerups s), map length (bricks s))"

subsection \<open>Concrete hosts and states\<close>

definition host0 :: host where
  "host0 = spec_host (\<lambda>_. 0) (\<lambda>_. 0)"

text \<open>The game right after the start key on the title screen.\<close>

definition fresh_game :: state where
  "fresh_game = (init_game static_state)\<lparr>gameState := GAME_PLAYING\<rparr>"

text \<open>A game whose ten powerup slots are all falling.\<close>

definition full_pool :: state where
  "full_pool =
     fresh_game\<lparr>powerups := replicate POWERUPS_MAX
       \<lparr>pu_pos = \<lparr>vec_x = 55, vec_y = 300\<rparr>, pu_spd = \<lparr>vec_x = 0, vec_y = 2\<rparr>,
        pu_type = POWERUP_EXTRA_LIFE, pu_active = True\<rparr>\<rparr>"

text \<open>A game with \<open>n\<close> lives in which the ball was launched and no ball is left.\<close>

definition lost_game :: "int \<Rightarrow> state" where
  "lost_game n =
     fresh_game\<lparr>player := (player fresh_game)\<lparr>p_life := n\<rparr>, ballsCount := 0,
                waiting_for_launch := False\<rparr>"

text \<open>A finished game: no life left, three bricks broken.\<close>

definition over_game :: state where
  "over_game = (lost_game 0)\<lparr>gameState := GAME_OVER, score := 300, pause := False\<rparr>"


subsection \<open>The scan over the bricks\<close>

text \<open>
  The cells of the grid in the order of the two nested loops, rows first; the cells
  that the ball \<open>b\<close> hits in a state, in that order: the active bricks its circle
  overlaps; and the body of the loops run over a list of cells.
\<close>

definition grid_cells :: "(nat \<times> nat) list" where
  "grid_cells = List.product [0..<LINES_OF_BRICKS] [0..<BRICKS_PER_LINE]"

definition brick_hits :: "host \<Rightarrow> nat \<Rightarrow> state \<Rightarrow> (nat \<times> nat) list" where
  "brick_hits h b s = filter (\<lambda>(y, x). brick_hit h b y x s) grid_cells"

definition brick_scan :: "host \<Rightarrow> nat \<Rightarrow> (nat \<times> nat) list \<Rightarrow> state \<Rightarrow> state" where
  "brick_scan h b cs s = fold (\<lambda>(y, x). brick_test h b y x) cs s"

text \<open>The order of the scan: rows from top to bottom, and columns from left to right in a row.\<close>

definition row_major :: "nat \<times> nat \<Rightarrow> nat \<times> nat \<Rightarrow> bool" where
  "row_major c c' \<longleftrightarrow> fst c < fst c' \<or> fst c = fst c' \<and> snd c < snd c'"

subsection \<open>States with a single ball\<close>

text \<open>The unused slots of the two pools, as the static initialisers leave them.\<close>

definition rest_ball :: t_ball where
  "rest_ball = \<lparr>b_pos = \<lparr>vec_x = 0, vec_y = 0\<rparr>, b_spd = \<lparr>vec_x = 0, vec_y = 0\<rparr>,
                b_radius = 0, b_active = False\<rparr>"

definition no_powerup :: t_powerup where
  "no_powerup = \<lparr>pu_pos = \<lparr>vec_x = 0, vec_y = 0\<rparr>, pu_spd = \<lparr>vec_x = 0, vec_y = 0\<rparr>,
                 pu_type = POWERUP_NONE, pu_active = False\<rparr>"

text \<open>A ball of radius 12.\<close>

definition ball_at :: "real \<Rightarrow> real \<Rightarrow> real \<Rightarrow> real \<Rightarrow> bool \<Rightarrow> t_ball" where
  "ball_at x y vx vy a =
     \<lparr>b_pos = \<lparr>vec_x = x, vec_y = y\<rparr>, b_spd = \<lparr>vec_x = vx, vec_y = vy\<rparr>,
      b_radius = 12, b_active = a\<rparr>"

text \<open>
  A game in the playing phase with three lives, the paddle of width 140 at \<open>px\<close>, the
  ball \<open>bl\<close> in slot 0 and nothing in the other slots, no powerup falling, the grid
  \<open>g\<close>, the score \<open>sc\<close>, the launch-wait flag \<open>w\<close> and \<open>gc\<close> calls of
  \<^verbatim>\<open>GetRandomValue\<close> made.
\<close>

definition court :: "real \<Rightarrow> t_ball \<Rightarrow> t_brick list list \<Rightarrow> int \<Rightarrow> bool \<Rightarrow> nat \<Rightarrow> state" where
  "court px bl g sc w gc =
     \<lparr>player = \<lparr>p_pos = \<lparr>vec_x = px, vec_y = 670\<rparr>, p_size = \<lparr>vec_x = 140, vec_y = 22\<rparr>,
                p_life = 3, p_speed = 8, p_expanded = False, p_expand_timer = 0\<rparr>,
      balls = [bl, rest_ball, rest_ball, rest_ball, rest_ball],
      ballsCount = 1,
      bricks = g,
      brickSize = \<lparr>vec_x = 96, vec_y = 38\<rparr>,
      gameState = GAME_PLAYING,
      pause = False,
      score = sc,
      powerups = replicate POWERUPS_MAX no_powerup,
      waiting_for_launch = w,
      rand_calls = 0,
      grv_calls = gc\<rparr>"

text \<open>The x position of that paddle after the paddle block of a frame.\<close>

definition paddle_pos :: "input \<Rightarrow> real \<Rightarrow> real" where
  "paddle_pos inp px =
     (let x1 = (if key_left_down inp then px - 8 else px);
          x2 = (if key_right_down inp then x1 + 8 else x1);
          x3 = (if x2 < 0 then 0 else x2)
      in if x3 + 140 > screenWidth then screenWidth - 140 else x3)"

text \<open>
  A grid of 5 rows of 10 bricks with the rectangles of \<open>init_game\<close> whose brick (0, 0)
  is active; breaking a brick; a brick of such a grid that a ball of radius 12 at \<open>c\<close>
  hits.
\<close>

definition grid_ok :: "t_brick list list \<Rightarrow> bool" where
  "grid_ok g \<longleftrightarrow>
     length g = LINES_OF_BRICKS \<and> list_all (\<lambda>row. length row = BRICKS_PER_LINE) g \<and>
     (\<forall>y<LINES_OF_BRICKS. \<forall>x<BRICKS_PER_LINE.
        br_rect (g ! y ! x) = br_rect (init_brick \<lparr>vec_x = 96, vec_y = 38\<rparr> y x)) \<and>
     br_active (g ! 0 ! 0)"

definition break_brick :: "nat \<Rightarrow> nat \<Rightarrow> t_brick list list \<Rightarrow> t_brick list list" where
  "break_brick y x g = g[y := (g ! y)[x := (g ! y ! x)\<lparr>br_active := False\<rparr>]]"

definition court_hit :: "t_brick list list \<Rightarrow> vector2 \<Rightarrow> nat \<Rightarrow> nat \<Rightarrow> bool" where
  "court_hit g c y x \<longleftrightarrow>
     br_active (g ! y ! x) \<and>
     circleIntersectsRect c 12
       \<lparr>rec_x = real x * 96 + 7, rec_y = real y * 38 + 70, rec_width = 84, rec_height = 28\<rparr>"

text \<open>
  Centres of a ball of radius 12 away from the walls and the paddle, and those that
  are away from the bricks as well.
\<close>

definition air_zone :: "real \<Rightarrow> real \<Rightarrow> bool" where
  "air_zone x y \<longleftrightarrow> 12 < x \<and> x < 948 \<and> 12 < y \<and> y < 658"

definition free_zone :: "real \<Rightarrow> real \<Rightarrow> bool" where
  "free_zone x y \<longleftrightarrow> air_zone x y \<and> 262 < y"

text \<open>Frames from a given state.\<close>

definition frames :: "host \<Rightarrow> input list \<Rightarrow> state \<Rightarrow> state" where
  "frames h ins s = fold (update_game h) ins s"

subsection \<open>Two games\<close>

text \<open>
  Hosts whose first draw launches the ball to the left, or to the right, and whose
  later draws never spawn a powerup.
\<close>

definition hostL :: host where
  "hostL = spec_host (\<lambda>_. 0) (\<lambda>k. if k = 0 then 0 else 50)"

definition hostR :: host where
  "hostR = spec_host (\<lambda>_. 0) (\<lambda>k. if k = 0 then 1 else 50)"

text \<open>
  Start, move the paddle right for two frames, launch, and wait 55 frames: the ball
  then is just below the gap between the bricks (4, 0) and (4, 1).
\<close>

definition double_trace :: "input list" where
  "double_trace = press_space # replicate 2 hold_right @ [press_space] @ replicate 55 no_keys"

text \<open>
  Start, move the paddle left for 42 frames, launch, hold the right key for 94
  frames (the ball breaks brick (4, 5) in the 56th of them) and wait for 21 frames:
  in the last but one the ball meets the paddle and the right wall together.
\<close>

definition wall_trace :: "input list" where
  "wall_trace =
     press_space # replicate 42 hold_left @ [press_space] @
     replicate 55 hold_right @ [hold_right] @ replicate 38 hold_right @
     replicate 19 no_keys @ [no_keys, no_keys]"

subsection \<open>Two pickups\<close>

text \<open>The number of balls in play.\<close>

definition active_balls :: "state \<Rightarrow> nat" where
  "active_balls s = length (filter b_active (balls s))"

text \<open>
  A host whose first draw launches the ball to the right and whose every broken
  brick drops an Expand powerup, and a host whose every broken brick drops a
  MultiBall powerup.
\<close>

definition hostE :: host where
  "hostE = spec_host (\<lambda>_. 0) (\<lambda>k. if k = 0 then 1 else 0)"

definition hostM :: host where
  "hostM = spec_host (\<lambda>_. 85) (\<lambda>_. 0)"

text \<open>
  A game with the host \<open>hostE\<close>: the ball, launched from the start position, broke
  the brick (4, 9) and was lost; the paddle has been moved to the right edge, and the
  Expand powerup of the brick is one frame above the paddle.
\<close>

definition expand_pickup :: state where
  "expand_pickup =
     \<lparr>player = \<lparr>p_pos = \<lparr>vec_x = 820, vec_y = 670\<rparr>, p_size = \<lparr>vec_x = 140, vec_y = 22\<rparr>,
                p_life = 2, p_speed = 8, p_expanded = False, p_expand_timer = 0\<rparr>,
      balls = [ball_at 890 656 0 0 False, rest_ball, rest_ball, rest_ball, rest_ball],
      ballsCount = 1,
      bricks = break_brick 4 9 (bricks fresh_game),
      brickSize = \<lparr>vec_x = 96, vec_y = 38\<rparr>,
      gameState = GAME_PLAYING,
      pause = False,
      score = 100,
      powerups = \<lparr>pu_pos = \<lparr>vec_x = 919, vec_y = 655\<rparr>, pu_spd = \<lparr>vec_x = 0, vec_y = 2\<rparr>,
                   pu_type = POWERUP_EXPAND, pu_active = True\<rparr> # replicate 9 no_powerup,
      waiting_for_launch = True,
      rand_calls = 1,
      grv_calls = 2\<rparr>"

text \<open>
  The keys of a game with the host \<open>hostE\<close>, frame by frame from process start: the
  game is started and the ball launched, the ball breaks the brick (4, 9) and is lost,
  and the paddle is moved to the right edge, where it waits for the powerup.
\<close>

definition expand_trace :: "input list" where
  "expand_trace =
     [press_space, press_space] @ replicate 125 no_keys @ replicate 52 hold_right @
     replicate 85 no_keys"

text \<open>A MultiBall powerup on its way down.\<close>

definition multi_powerup :: "real \<Rightarrow> real \<Rightarrow> bool \<Rightarrow> t_powerup" where
  "multi_powerup x y a =
     \<lparr>pu_pos = \<lparr>vec_x = x, vec_y = y\<rparr>, pu_spd = \<lparr>vec_x = 0, vec_y = 2\<rparr>,
      pu_type = POWERUP_MULTI_BALL, pu_active = a\<rparr>"

text \<open>
  A game with the host \<open>hostM\<close>, given by its balls, the counter of the balls, its
  powerups and the number of draws: seven bricks are broken, one life is lost, and the
  paddle stands at 386.
\<close>

definition multi_court :: "t_ball list \<Rightarrow> int \<Rightarrow> t_powerup list \<Rightarrow> nat \<Rightarrow> state" where
  "multi_court bs bc pus gc =
     \<lparr>player = \<lparr>p_pos = \<lparr>vec_x = 386, vec_y = 670\<rparr>, p_size = \<lparr>vec_x = 140, vec_y = 22\<rparr>,
                p_life = 2, p_speed = 8, p_expanded = False, p_expand_timer = 0\<rparr>,
      balls = bs,
      ballsCount = bc,
      bricks = break_brick 3 4 (break_brick 4 4 (break_brick 3 3 (break_brick 4 2
                 (break_brick 4 3 (break_brick 4 5 (break_brick 4 0 (bricks fresh_game))))))),
      brickSize = \<lparr>vec_x = 96, vec_y = 38\<rparr>,
      gameState = GAME_PLAYING,
      pause = False,
      score = 700,
      powerups = pus,
      waiting_for_launch = False,
      rand_calls = 7,
      grv_calls = gc\<rparr>"

text \<open>
  In this game a first MultiBall powerup made three balls of one. The balls of the
  slots 0 and 1 have just fallen below the screen, in the same frame (the counter went
  from 3 to 1); the ball of slot 2 is still in flight, to the right of the paddle. Six
  MultiBall powerups are falling; the second one is seven frames above the paddle.
\<close>

definition relaunch_state :: state where
  "relaunch_state =
     multi_court
       [ball_at 821 733 7 7 False, ball_at 723 733 7 7 False, ball_at 821 649 7 7 True,
        rest_ball, rest_ball]
       1
       [multi_powerup 343 379 True, multi_powerup 535 643 True, multi_powerup 247 379 True,
        multi_powerup 343 331 True, multi_powerup 439 369 True, multi_powerup 439 329 True,
        no_powerup, no_powerup, no_powerup, no_powerup]
       11"

text \<open>
  The keys of that game, frame by frame from process start: the game is started and
  the ball launched; the paddle is moved to 242, where the ball bounces, and on to 2;
  the ball breaks a second brick and is lost; the ball is launched again and the first
  powerup collected; the paddle is moved to 386.
\<close>

definition relaunch_trace :: "input list" where
  "relaunch_trace =
     [press_space, press_space] @ replicate 21 hold_left @ replicate 93 no_keys @
     replicate 30 hold_left @ replicate 103 no_keys @ [press_space] @ replicate 15 no_keys @
     replicate 48 hold_right @ replicate 61 no_keys"


section \<open>Auxiliary facts\<close>

subsection \<open>Scans\<close>

lemma first_index_None: "first_index P xs = None \<longleftrightarrow> (\<forall>x\<in>set xs. \<not> P x)"
  by (induction xs) auto

lemma first_index_Some:
  "first_index P xs = Some i \<longleftrightarrow> i < length xs \<and> P (xs ! i) \<and> (\<forall>j<i. \<not> P (xs ! j))"
proof (induction xs arbitrary: i)
  case Nil
  then show ?case by simp
next
  case (Cons a as)
  show ?case
  proof (cases "P a")
    case True
    then show ?thesis by (cases i) auto
  next
    case False
    show ?thesis
    proof (cases i)
      case 0
      with False show ?thesis by auto
    next
      case (Suc k)
      with False Cons.IH [of k] show ?thesis
        by (auto simp: less_Suc_eq_0_disj)
    qed
  qed
qed

lemma all_inactive_reset:
  assumes "b \<in> set (balls (reset_balls pos s))"
  shows "\<not> b_active b"
proof -
  from assms have "b \<in> insert \<lparr>b_pos = pos, b_spd = \<lparr>vec_x = 0, vec_y = 0\<rparr>, b_radius = 12, b_active = False\<rparr>
      (set (map (\<lambda>b. b\<lparr>b_active := False\<rparr>) (balls s)))"
    unfolding reset_balls_def using set_update_subset_insert by fastforce
  then show ?thesis by auto
qed

subsection \<open>Folds\<close>

lemma fold_keeps:
  assumes "\<And>x s. g (f x s) = g s"
  shows "g (fold f xs s) = g s"
  using assms by (induction xs arbitrary: s) simp_all

lemma fold_rel:
  assumes refl: "\<And>s. R s s"
    and trans: "\<And>s t u. R s t \<Longrightarrow> R t u \<Longrightarrow> R s u"
    and step: "\<And>x s. R s (f x s)"
  shows "R s (fold f xs s)"
proof (induction xs arbitrary: s)
  case Nil
  show ?case by (simp add: refl)
next
  case (Cons x xs)
  have "R s (f x s)" by (rule step)
  moreover have "R (f x s) (fold f xs (f x s))" by (rule Cons.IH)
  ultimately show ?case by (auto intro: trans)
qed

subsection \<open>What each block leaves alone\<close>

lemma map_update_same: "(map f xs)[i := f (xs ! i)] = map f xs"
  by (metis list_update_id map_update)

lemma paddle_row_powerups: "paddle_row (s\<lparr>powerups := ps\<rparr>) = paddle_row s"
  by (simp add: paddle_row_def)

lemma spawn_powerup_frame:
  "player (spawn_powerup h pos s) = player s"
  "gameState (spawn_powerup h pos s) = gameState s"
  "bricks (spawn_powerup h pos s) = bricks s"
  "balls (spawn_powerup h pos s) = balls s"
  "score (spawn_powerup h pos s) = score s"
  "length (powerups (spawn_powerup h pos s)) = length (powerups s)"
  by (simp_all add: spawn_powerup_def Let_def split: option.splits)

lemma brick_test_frame:
  "player (brick_test h b y x s) = player s"
  "gameState (brick_test h b y x s) = gameState s"
  "length (balls (brick_test h b y x s)) = length (balls s)"
  "length (powerups (brick_test h b y x s)) = length (powerups s)"
  "map length (bricks (brick_test h b y x s)) = map length (bricks s)"
  by (simp_all add: brick_test_def Let_def spawn_powerup_frame map_update map_update_same)

lemma brick_test_shape: "shape (brick_test h b y x s) = shape s"
  by (simp add: shape_def brick_test_frame)

lemma ball_bricks_frame:
  "player (ball_bricks h b s) = player s"
  "gameState (ball_bricks h b s) = gameState s"
  "shape (ball_bricks h b s) = shape s"
  unfolding ball_bricks_def
  by (simp_all add: fold_keeps brick_test_frame brick_test_shape)

lemma ball_missed_frame:
  "player (ball_missed b s) = player s"
  "gameState (ball_missed b s) = gameState s"
  "bricks (ball_missed b s) = bricks s"
  "shape (ball_missed b s) = shape s"
  by (simp_all add: ball_missed_def Let_def shape_def)

lemma ball_step_frame:
  "player (ball_step h b s) = player s"
  "gameState (ball_step h b s) = gameState s"
  "shape (ball_step h b s) = shape s"
  by (simp_all add: ball_step_def Let_def ball_bricks_frame ball_missed_frame)
     (simp add: shape_def)

lemma ball_loop_frame:
  "player (fold (ball_step h) bs s) = player s"
  "gameState (fold (ball_step h) bs s) = gameState s"
  "shape (fold (ball_step h) bs s) = shape s"
  by (simp_all add: fold_keeps ball_step_frame)

lemma clone_ball_frame:
  "paddle_row (clone_ball h i s) = paddle_row s"
  "gameState (clone_ball h i s) = gameState s"
  "bricks (clone_ball h i s) = bricks s"
  "powerups (clone_ball h i s) = powerups s"
  "length (balls (clone_ball h i s)) = length (balls s)"
  by (simp_all add: clone_ball_def Let_def paddle_row_def split: option.splits)

lemma multi_ball_frame:
  "paddle_row (multi_ball h is s) = paddle_row s"
  "gameState (multi_ball h is s) = gameState s"
  "bricks (multi_ball h is s) = bricks s"
  "powerups (multi_ball h is s) = powerups s"
  "length (balls (multi_ball h is s)) = length (balls s)"
  by (induction "is" arbitrary: s; simp add: clone_ball_frame)+

lemma apply_powerup_frame:
  "paddle_row (apply_powerup h ty s) = paddle_row s"
  "gameState (apply_powerup h ty s) = gameState s"
  "bricks (apply_powerup h ty s) = bricks s"
  "powerups (apply_powerup h ty s) = powerups s"
  "length (balls (apply_powerup h ty s)) = length (balls s)"
  by (cases ty; simp add: apply_powerup_def multi_ball_frame; simp add: paddle_row_def)+

lemma powerup_step_frame:
  "paddle_row (powerup_step h i s) = paddle_row s"
  "gameState (powerup_step h i s) = gameState s"
  "bricks (powerup_step h i s) = bricks s"
  "shape (powerup_step h i s) = shape s"
  by (simp_all add: powerup_step_def Let_def apply_powerup_frame shape_def paddle_row_powerups)

lemma powerup_loop_frame:
  "paddle_row (fold (powerup_step h) is s) = paddle_row s"
  "gameState (fold (powerup_step h) is s) = gameState s"
  "bricks (fold (powerup_step h) is s) = bricks s"
  "shape (fold (powerup_step h) is s) = shape s"
  by (simp_all add: fold_keeps powerup_step_frame)

subsection \<open>Bricks only decay\<close>

lemma bricks_decay_refl: "bricks_decay s s"
  by (simp add: bricks_decay_def)

lemma bricks_decay_eq: "bricks s' = bricks s \<Longrightarrow> bricks_decay s s'"
  by (simp add: bricks_decay_def)

lemma bricks_decay_trans: "bricks_decay s t \<Longrightarrow> bricks_decay t u \<Longrightarrow> bricks_decay s u"
  by (simp add: bricks_decay_def)

lemma nth_nth_update:
  "xss[y := (xss ! y)[x := v]] ! y' ! x' =
     (if y' = y \<and> x' = x \<and> y < length xss \<and> x < length (xss ! y) then v else xss ! y' ! x')"
proof -
  consider (inside) "y < length xss" "x < length (xss ! y)"
    | (row) "y < length xss" "\<not> x < length (xss ! y)"
    | (outside) "\<not> y < length xss"
    by blast
  then show ?thesis
  proof cases
    case inside
    show ?thesis
    proof (cases "y' = y")
      case True
      with inside show ?thesis by (simp add: nth_list_update)
    next
      case False
      then show ?thesis by simp
    qed
  next
    case row
    then have "(xss ! y)[x := v] = xss ! y" by (simp add: list_update_beyond)
    with row show ?thesis by simp
  next
    case outside
    then show ?thesis by (simp add: list_update_beyond)
  qed
qed

lemma brick_test_decay: "bricks_decay s (brick_test h b y x s)"
  by (simp add: bricks_decay_def brick_test_def Let_def spawn_powerup_frame nth_nth_update)

lemma fold_decay:
  assumes "\<And>x s. bricks_decay s (f x s)"
  shows "bricks_decay s (fold f xs s)"
  using bricks_decay_refl bricks_decay_trans assms
  by (rule fold_rel [where R = bricks_decay])

lemma ball_bricks_decay: "bricks_decay s (ball_bricks h b s)"
  unfolding ball_bricks_def
  by (rule fold_decay) (rule fold_decay, rule brick_test_decay)

lemma ball_step_decay: "bricks_decay s (ball_step h b s)"
proof (cases "b_active (balls s ! b)")
  case True
  let ?t = "ball_missed b (s\<lparr>balls := (balls s)
              [b := paddle_bounce h (player s) (wall_reflect (move_ball (balls s ! b)))]\<rparr>)"
  have "bricks_decay s ?t"
    by (rule bricks_decay_eq) (simp add: ball_missed_frame)
  moreover have "bricks_decay ?t (ball_bricks h b ?t)"
    by (rule ball_bricks_decay)
  ultimately show ?thesis
    using True by (simp add: ball_step_def Let_def bricks_decay_trans)
next
  case False
  then show ?thesis by (simp add: ball_step_def bricks_decay_refl)
qed

lemma ball_loop_decay: "bricks_decay s (fold (ball_step h) bs s)"
  by (rule fold_decay) (rule ball_step_decay)

lemma pre_ball_frame:
  "bricks (launch_ball h inp (expand_decay inp (paddle_control inp s))) = bricks s"
  "gameState (launch_ball h inp (expand_decay inp (paddle_control inp s))) = gameState s"
  "paddle_row (launch_ball h inp (expand_decay inp (paddle_control inp s))) = paddle_row s"
  "shape (launch_ball h inp (expand_decay inp (paddle_control inp s))) = shape s"
  by (simp_all add: launch_ball_def expand_decay_def paddle_control_def Let_def paddle_row_def
      shape_def)

lemma life_loss_frame:
  "bricks (life_loss s) = bricks s"
  "paddle_row (life_loss s) = paddle_row s"
  "shape (life_loss s) = shape s"
  "gameState s = GAME_PLAYING \<Longrightarrow> gameState (life_loss s) \<noteq> GAME_WIN"
  by (simp_all add: life_loss_def reset_balls_def Let_def paddle_row_def shape_def)

lemma win_check_frame:
  "bricks (win_check s) = bricks s"
  "paddle_row (win_check s) = paddle_row s"
  "shape (win_check s) = shape s"
  by (simp_all add: win_check_def Let_def paddle_row_def shape_def)

lemma paddle_row_player: "player s' = player s \<Longrightarrow> paddle_row s' = paddle_row s"
  by (simp add: paddle_row_def)

lemma simulate_frame:
  "paddle_row (simulate h inp s) = paddle_row s"
  "shape (simulate h inp s) = shape s"
  by (simp_all add: simulate_def win_check_frame powerup_loop_frame life_loss_frame
      ball_loop_frame pre_ball_frame paddle_row_player [OF ball_loop_frame(1)])

lemma simulate_decay: "bricks_decay s (simulate h inp s)"
proof -
  let ?p = "launch_ball h inp (expand_decay inp (paddle_control inp s))"
  let ?b = "fold (ball_step h) [0..<BALLS_MAX] ?p"
  have "bricks_decay s ?p"
    by (rule bricks_decay_eq) (simp add: pre_ball_frame)
  moreover have "bricks_decay ?p ?b"
    by (rule ball_loop_decay)
  moreover have "bricks_decay ?b (simulate h inp s)"
    by (rule bricks_decay_eq)
      (simp add: simulate_def win_check_frame powerup_loop_frame life_loss_frame)
  ultimately show ?thesis
    by (blast intro: bricks_decay_trans)
qed

lemma active_bricks_0: "active_bricks s = 0 \<longleftrightarrow> \<not> list_ex (list_ex br_active) (bricks s)"
  by (auto simp: active_bricks_def list_ex_iff filter_empty_conv)

lemma simulate_win:
  assumes "gameState s = GAME_PLAYING"
  shows "gameState (simulate h inp s) = GAME_WIN \<longleftrightarrow> active_bricks (simulate h inp s) = 0"
proof -
  let ?t = "fold (powerup_step h) [0..<POWERUPS_MAX]
              (life_loss (fold (ball_step h) [0..<BALLS_MAX]
                 (launch_ball h inp (expand_decay inp (paddle_control inp s)))))"
  have "gameState ?t \<noteq> GAME_WIN"
    using assms by (simp add: powerup_loop_frame life_loss_frame ball_loop_frame pre_ball_frame)
  moreover have "simulate h inp s = win_check ?t"
    by (simp add: simulate_def)
  ultimately show ?thesis
    by (simp add: active_bricks_0 win_check_def Let_def)
qed

subsection \<open>update_game and the frames of a process\<close>

lemma run_Nil: "run h [] = init_game static_state"
  by (simp add: run_def)

lemma run_snoc: "run h (ins @ [inp]) = update_game h inp (run h ins)"
  by (simp add: run_def)

lemma init_game_fields:
  "player (init_game s) =
     \<lparr>p_pos = \<lparr>vec_x = 410, vec_y = 670\<rparr>, p_size = \<lparr>vec_x = 140, vec_y = 22\<rparr>,
      p_life = PLAYER_MAX_LIFE, p_speed = 8, p_expanded = False, p_expand_timer = 0\<rparr>"
  "brickSize (init_game s) = \<lparr>vec_x = 96, vec_y = 38\<rparr>"
  "score (init_game s) = 0"
  "ballsCount (init_game s) = 1"
  "\<not> pause (init_game s)"
  "waiting_for_launch (init_game s)"
  "gameState (init_game s) = gameState s"
  "length (balls (init_game s)) = length (balls s)"
  "length (powerups (init_game s)) = length (powerups s)"
  by (simp_all add: init_game_def Let_def)

lemma init_game_bricks: "bricks (init_game s) = bricks (init_game t)"
  by (simp add: init_game_def Let_def)

lemma init_game_shape: "map length (bricks (init_game s)) = replicate LINES_OF_BRICKS BRICKS_PER_LINE"
  by (simp add: init_game_def Let_def map_replicate_const comp_def)

lemma init_game_bricks_left: "list_ex (list_ex br_active) (bricks (init_game s))"
  by (auto simp: init_game_def Let_def init_brick_def list_ex_iff intro: exI [of _ 0])

lemma init_game_inactive:
  "\<forall>b\<in>set (balls (init_game s)). \<not> b_active b"
  "\<forall>p\<in>set (powerups (init_game s)). \<not> pu_active p"
proof -
  have "set (balls (init_game s)) \<subseteq>
      insert \<lparr>b_pos = \<lparr>vec_x = 480, vec_y = 656\<rparr>, b_spd = \<lparr>vec_x = 0, vec_y = 0\<rparr>,
              b_radius = 12, b_active = False\<rparr>
        (set (map (\<lambda>b. b\<lparr>b_active := False\<rparr>) (balls s)))"
    using set_update_subset_insert by (fastforce simp: init_game_def Let_def)
  then show "\<forall>b\<in>set (balls (init_game s)). \<not> b_active b"
    by auto
  show "\<forall>p\<in>set (powerups (init_game s)). \<not> pu_active p"
    by (simp add: init_game_def Let_def)
qed

lemma init_game_ball0:
  "balls s \<noteq> [] \<Longrightarrow>
   balls (init_game s) ! 0 =
     \<lparr>b_pos = \<lparr>vec_x = 480, vec_y = 656\<rparr>, b_spd = \<lparr>vec_x = 0, vec_y = 0\<rparr>,
      b_radius = 12, b_active = False\<rparr>"
  by (simp add: init_game_def Let_def)

lemma update_game_row:
  "paddle_row (update_game h inp s) = paddle_row s \<or> paddle_row (update_game h inp s) = (670, 22)"
  by (cases "gameState s")
     (simp_all add: update_game_def Let_def simulate_frame, simp_all add: paddle_row_def init_game_fields)

lemma paddle_row_run: "paddle_row (run h ins) = (670, 22)"
proof (induction ins rule: rev_induct)
  case Nil
  show ?case by (simp add: run_Nil paddle_row_def init_game_fields)
next
  case (snoc inp ins)
  with update_game_row [of h inp "run h ins"] show ?case
    by (auto simp: run_snoc)
qed

lemma init_game_shape_full:
  "shape (init_game s) =
     (length (balls s), length (powerups s), replicate LINES_OF_BRICKS BRICKS_PER_LINE)"
  unfolding shape_def by (simp only: init_game_fields init_game_shape)

lemma shape_gameState: "shape (s\<lparr>gameState := g\<rparr>) = shape s"
  by (simp add: shape_def)

lemma shape_pause: "shape (s\<lparr>pause := g\<rparr>) = shape s"
  by (simp add: shape_def)

lemma update_game_shape:
  "shape (update_game h inp s) = shape s \<or>
   shape (update_game h inp s) =
     (length (balls s), length (powerups s), replicate LINES_OF_BRICKS BRICKS_PER_LINE)"
proof (cases "gameState s")
  case GAME_TITLE
  then show ?thesis
    by (simp add: update_game_def shape_gameState init_game_shape_full)
next
  case GAME_PLAYING
  then show ?thesis
    by (simp add: update_game_def Let_def simulate_frame shape_pause)
next
  case GAME_OVER
  then show ?thesis
    by (simp add: update_game_def shape_gameState)
next
  case GAME_WIN
  then show ?thesis
    by (simp add: update_game_def shape_gameState)
qed

lemma shape_run:
  "shape (run h ins) = (BALLS_MAX, POWERUPS_MAX, replicate LINES_OF_BRICKS BRICKS_PER_LINE)"
proof (induction ins rule: rev_induct)
  case Nil
  show ?case
    by (simp add: run_Nil init_game_shape_full) (simp add: static_state_def)
next
  case (snoc inp ins)
  then have "length (balls (run h ins)) = BALLS_MAX" "length (powerups (run h ins)) = POWERUPS_MAX"
    by (simp_all add: shape_def)
  with snoc update_game_shape [of h inp "run h ins"] show ?case
    by (auto simp: run_snoc)
qed

lemma map_length_replicate:
  "map length xss = replicate m n \<longleftrightarrow> length xss = m \<and> list_all (\<lambda>row. length row = n) xss"
proof
  assume eq: "map length xss = replicate m n"
  then have "length (map length xss) = length (replicate m n)"
    by simp
  moreover have "length row = n" if "row \<in> set xss" for row
  proof -
    from that have "length row \<in> set (map length xss)" by simp
    with eq show ?thesis by simp
  qed
  ultimately show "length xss = m \<and> list_all (\<lambda>row. length row = n) xss"
    by (simp add: list_all_iff)
next
  assume "length xss = m \<and> list_all (\<lambda>row. length row = n) xss"
  then have "map length xss = map (\<lambda>_. n) xss" "length xss = m"
    by (simp_all add: list_all_iff)
  then show "map length xss = replicate m n"
    by (simp add: map_replicate_const)
qed

lemma wf_state_shape:
  "wf_state s \<longleftrightarrow>
   shape s = (BALLS_MAX, POWERUPS_MAX, replicate LINES_OF_BRICKS BRICKS_PER_LINE)"
  by (auto simp: wf_state_def shape_def map_length_replicate)

lemma wf_run: "wf_state (run h ins)"
  by (simp add: wf_state_shape shape_run)

lemma playing_has_bricks:
  "gameState (run h ins) = GAME_PLAYING \<Longrightarrow> active_bricks (run h ins) \<noteq> 0"
proof (induction ins rule: rev_induct)
  case Nil
  then show ?case
    by (simp add: run_Nil init_game_fields static_state_def)
next
  case (snoc inp ins)
  let ?s = "run h ins"
  let ?t = "if key_p_pressed inp then ?s\<lparr>pause := \<not> pause ?s\<rparr> else ?s"
  from snoc.prems have playing: "gameState (update_game h inp ?s) = GAME_PLAYING"
    by (simp add: run_snoc)
  show ?case
  proof (cases "gameState ?s")
    case GAME_TITLE
    with playing have "update_game h inp ?s = (init_game ?s)\<lparr>gameState := GAME_PLAYING\<rparr>"
      by (auto simp: update_game_def split: if_splits)
    then show ?thesis
      using init_game_bricks_left [of ?s] by (simp add: run_snoc active_bricks_0)
  next
    case GAME_PLAYING
    have t: "gameState ?t = GAME_PLAYING" "bricks ?t = bricks ?s"
      using GAME_PLAYING by simp_all
    show ?thesis
    proof (cases "pause ?t")
      case True
      with GAME_PLAYING have "update_game h inp ?s = ?t"
        by (simp add: update_game_def Let_def)
      with snoc.IH GAME_PLAYING t show ?thesis
        by (simp add: run_snoc active_bricks_def)
    next
      case False
      with GAME_PLAYING have "update_game h inp ?s = simulate h inp ?t"
        by (simp add: update_game_def Let_def)
      with playing simulate_win [OF t(1), of h inp] show ?thesis
        by (simp add: run_snoc)
    qed
  next
    case GAME_OVER
    with playing show ?thesis
      by (simp add: update_game_def split: if_splits)
  next
    case GAME_WIN
    with playing show ?thesis
      by (simp add: update_game_def split: if_splits)
  qed
qed


section \<open>Frames of a single ball\<close>

lemma fold_product:
  "fold (\<lambda>y. fold (\<lambda>x. f y x) xs) ys s = fold (\<lambda>(y, x). f y x) (List.product ys xs) s"
proof (induction ys arbitrary: s)
  case Nil
  show ?case by simp
next
  case (Cons y ys)
  have "fold (\<lambda>(y, x). f y x) (map (Pair y) xs) s = fold (\<lambda>x. f y x) xs s"
    by (simp add: fold_map comp_def)
  with Cons show ?case by simp
qed

lemma ball_bricks_scan: "ball_bricks h b s = brick_scan h b grid_cells s"
  by (simp add: ball_bricks_def brick_scan_def grid_cells_def fold_product)

lemma brick_test_miss: "\<not> brick_hit h b y x s \<Longrightarrow> brick_test h b y x s = s"
  by (simp add: brick_test_def)

lemma brick_test_hit:
  assumes "brick_hit h b y x s"
  shows "bricks (brick_test h b y x s) =
           (bricks s)[y := (bricks s ! y)[x := (bricks s ! y ! x)\<lparr>br_active := False\<rparr>]]"
    and "balls (brick_test h b y x s) =
           (balls s)[b := (balls s ! b)\<lparr>b_spd := (b_spd (balls s ! b))
              \<lparr>vec_y := vec_y (b_spd (balls s ! b)) * (- 1)\<rparr>\<rparr>]"
    and "score (brick_test h b y x s) = score s + 100"
  using assms by (simp_all add: brick_test_def Let_def spawn_powerup_frame)

text \<open>What one test does to the quantities of the scan.\<close>

lemma brick_test_ball:
  assumes "b < length (balls s)"
  shows "b_pos (balls (brick_test h b y x s) ! b) = b_pos (balls s ! b)"
    and "b_radius (balls (brick_test h b y x s) ! b) = b_radius (balls s ! b)"
    and "vec_y (b_spd (balls (brick_test h b y x s) ! b)) =
           (if brick_hit h b y x s then - vec_y (b_spd (balls s ! b))
            else vec_y (b_spd (balls s ! b)))"
  using assms by (cases "brick_hit h b y x s"; simp add: brick_test_miss brick_test_hit)+

lemma brick_test_score:
  "score (brick_test h b y x s) = score s + (if brick_hit h b y x s then 100 else 0)"
  by (cases "brick_hit h b y x s") (simp_all add: brick_test_miss brick_test_hit)

lemma brick_test_cell:
  assumes "y < length (bricks s)" "x < length (bricks s ! y)"
  shows "bricks (brick_test h b y x s) ! y' ! x' =
           (if (y', x') = (y, x) \<and> brick_hit h b y x s
            then (bricks s ! y ! x)\<lparr>br_active := False\<rparr> else bricks s ! y' ! x')"
  using assms
  by (cases "brick_hit h b y x s") (simp_all add: brick_test_miss brick_test_hit nth_nth_update)

lemma brick_test_other_hit:
  assumes "b < length (balls s)" "y < length (bricks s)" "x < length (bricks s ! y)"
    and "(y', x') \<noteq> (y, x)"
  shows "brick_hit h b y' x' (brick_test h b y x s) = brick_hit h b y' x' s"
proof -
  have "bricks (brick_test h b y x s) ! y' ! x' = bricks s ! y' ! x'"
    using assms(4) by (auto simp: brick_test_cell [OF assms(2,3)])
  then show ?thesis
    by (simp add: brick_hit_def brick_test_ball [OF assms(1)])
qed

lemma brick_test_lengths:
  "length (bricks (brick_test h b y x s)) = length (bricks s)"
  "length (bricks (brick_test h b y x s) ! y') = length (bricks s ! y')"
proof -
  from brick_test_frame(5) [of h b y x s]
  have eq: "map length (bricks (brick_test h b y x s)) = map length (bricks s)" .
  then show len: "length (bricks (brick_test h b y x s)) = length (bricks s)"
    by (rule map_eq_imp_length_eq)
  show "length (bricks (brick_test h b y x s) ! y') = length (bricks s ! y')"
  proof (cases "y' < length (bricks s)")
    case True
    with len have "map length (bricks (brick_test h b y x s)) ! y' = map length (bricks s) ! y'"
      by (simp only: eq)
    with True len show ?thesis by simp
  next
    case False
    then have "brick_test h b y x s = s \<or> bricks (brick_test h b y x s) =
        (bricks s)[y := (bricks s ! y)[x := (bricks s ! y ! x)\<lparr>br_active := False\<rparr>]]"
      using brick_test_miss brick_test_hit(1) by blast
    then show ?thesis
    proof
      assume "brick_test h b y x s = s"
      then show ?thesis by simp
    next
      assume u: "bricks (brick_test h b y x s) =
        (bricks s)[y := (bricks s ! y)[x := (bricks s ! y ! x)\<lparr>br_active := False\<rparr>]]"
      show ?thesis
      proof (cases "y' = y")
        case True
        with False show ?thesis by (simp add: u list_update_beyond)
      next
        case False
        then show ?thesis by (simp add: u)
      qed
    qed
  qed
qed

text \<open>The scan of a list of distinct cells of the grid.\<close>

lemma brick_scan_effect:
  assumes "distinct cs" "b < length (balls s)"
    and "\<forall>(y, x)\<in>set cs. y < length (bricks s) \<and> x < length (bricks s ! y)"
  shows "score (brick_scan h b cs s) =
           score s + 100 * int (length (filter (\<lambda>(y, x). brick_hit h b y x s) cs)) \<and>
         vec_y (b_spd (balls (brick_scan h b cs s) ! b)) =
           (- 1) ^ length (filter (\<lambda>(y, x). brick_hit h b y x s) cs) * vec_y (b_spd (balls s ! b)) \<and>
         (\<forall>y x. bricks (brick_scan h b cs s) ! y ! x =
            (if (y, x) \<in> set cs \<and> brick_hit h b y x s
             then (bricks s ! y ! x)\<lparr>br_active := False\<rparr> else bricks s ! y ! x))"
  using assms
proof (induction cs arbitrary: s)
  case Nil
  show ?case by (simp add: brick_scan_def)
next
  case (Cons c cs)
  obtain y x where c: "c = (y, x)" by (cases c)
  let ?t = "brick_test h b y x s"
  from Cons.prems c have yx: "y < length (bricks s)" "x < length (bricks s ! y)"
    and notin: "(y, x) \<notin> set cs" and dist: "distinct cs" and b: "b < length (balls s)"
    by auto
  have bt: "b < length (balls ?t)"
    using b by (simp add: brick_test_frame)
  have cells: "\<forall>(y', x')\<in>set cs. y' < length (bricks ?t) \<and> x' < length (bricks ?t ! y')"
    using Cons.prems(3) by (auto simp: brick_test_lengths)
  have same: "brick_hit h b y' x' ?t = brick_hit h b y' x' s" if "(y', x') \<in> set cs" for y' x'
    using that notin by (intro brick_test_other_hit [OF b yx]) auto
  then have filt: "filter (\<lambda>(y, x). brick_hit h b y x ?t) cs =
      filter (\<lambda>(y, x). brick_hit h b y x s) cs"
    by (intro filter_cong) auto
  have scan: "brick_scan h b ((y, x) # cs) s = brick_scan h b cs ?t"
    by (simp add: brick_scan_def)
  note IH = Cons.IH [OF dist bt cells, unfolded filt]
  have score: "score (brick_scan h b ((y, x) # cs) s) =
      score s + 100 * int (length (filter (\<lambda>(y, x). brick_hit h b y x s) ((y, x) # cs)))"
    using IH by (simp add: scan brick_test_score)
  have spd: "vec_y (b_spd (balls (brick_scan h b ((y, x) # cs) s) ! b)) =
      (- 1) ^ length (filter (\<lambda>(y, x). brick_hit h b y x s) ((y, x) # cs)) *
        vec_y (b_spd (balls s ! b))"
    using IH by (simp add: scan brick_test_ball [OF b])
  have grid: "bricks (brick_scan h b ((y, x) # cs) s) ! y' ! x' =
      (if (y', x') \<in> set ((y, x) # cs) \<and> brick_hit h b y' x' s
       then (bricks s ! y' ! x')\<lparr>br_active := False\<rparr> else bricks s ! y' ! x')" for y' x'
  proof (cases "(y', x') = (y, x)")
    case True
    with notin IH show ?thesis
      by (simp add: scan brick_test_cell [OF yx])
  next
    case False
    show ?thesis
    proof (cases "(y', x') \<in> set cs")
      case True
      with False IH same [OF True] show ?thesis
        by (auto simp: scan brick_test_cell [OF yx])
    next
      case notin': False
      with False IH show ?thesis
        by (auto simp: scan brick_test_cell [OF yx])
    qed
  qed
  from score spd grid show ?case unfolding c by blast
qed

lemma square_gt:
  fixes d r :: real
  assumes "0 \<le> r" "r < \<bar>d\<bar>"
  shows "r * r < d * d"
proof -
  have "r * r < \<bar>d\<bar> * \<bar>d\<bar>"
    using assms by (intro mult_strict_mono) auto
  then show ?thesis by simp
qed

lemma circle_miss:
  assumes r: "0 \<le> r"
    and far: "r < \<bar>vec_x c - max (rec_x rct) (min (vec_x c) (rec_x rct + rec_width rct))\<bar> \<or>
              r < \<bar>vec_y c - max (rec_y rct) (min (vec_y c) (rec_y rct + rec_height rct))\<bar>"
  shows "\<not> circleIntersectsRect c r rct"
proof -
  define dx where "dx = vec_x c - max (rec_x rct) (min (vec_x c) (rec_x rct + rec_width rct))"
  define dy where "dy = vec_y c - max (rec_y rct) (min (vec_y c) (rec_y rct + rec_height rct))"
  have "r * r < dx * dx + dy * dy"
  proof -
    from far have "r < \<bar>dx\<bar> \<or> r < \<bar>dy\<bar>" by (simp add: dx_def dy_def)
    then show ?thesis
    proof
      assume "r < \<bar>dx\<bar>"
      with r have "r * r < dx * dx" by (rule square_gt)
      moreover have "0 \<le> dy * dy" by simp
      ultimately show ?thesis by linarith
    next
      assume "r < \<bar>dy\<bar>"
      with r have "r * r < dy * dy" by (rule square_gt)
      moreover have "0 \<le> dx * dx" by simp
      ultimately show ?thesis by linarith
    qed
  qed
  then show ?thesis
    by (simp add: circleIntersectsRect_def Let_def dx_def dy_def)
qed

lemma circle_miss_below:
  assumes "0 \<le> r" "0 \<le> rec_height rct" "rec_y rct + rec_height rct + r < vec_y c"
  shows "\<not> circleIntersectsRect c r rct"
  using assms by (intro circle_miss) (auto simp: max_def min_def)

lemma circle_miss_above:
  assumes "0 \<le> r" "0 \<le> rec_height rct" "vec_y c + r < rec_y rct"
  shows "\<not> circleIntersectsRect c r rct"
  using assms by (intro circle_miss) (auto simp: max_def min_def)

lemma circle_miss_right:
  assumes "0 \<le> r" "0 \<le> rec_width rct" "rec_x rct + rec_width rct + r < vec_x c"
  shows "\<not> circleIntersectsRect c r rct"
  using assms by (intro circle_miss) (auto simp: max_def min_def)

lemma circle_miss_left:
  assumes "0 \<le> r" "0 \<le> rec_width rct" "vec_x c + r < rec_x rct"
  shows "\<not> circleIntersectsRect c r rct"
  using assms by (intro circle_miss) (auto simp: max_def min_def)

lemma upt_5: "[0..<BALLS_MAX] = [0, 1, 2, 3, 4]"
  by (simp add: upt_rec)

lemma upt_10: "[0..<POWERUPS_MAX] = [0, 1, 2, 3, 4, 5, 6, 7, 8, 9]"
  by (simp add: upt_rec)

lemma fresh_game_court: "fresh_game = court 410 (ball_at 480 656 0 0 False) (bricks fresh_game) 0 True 0"
  by (simp add: fresh_game_def init_game_def static_state_def Let_def court_def ball_at_def
      rest_ball_def no_powerup_def numeral_eq_Suc)

lemma grid_ok_fresh: "grid_ok (bricks fresh_game)"
  by (simp add: grid_ok_def fresh_game_def init_game_def init_brick_def Let_def list_all_iff)

lemma pre_court:
  assumes "b_active bl" "\<not> key_p_pressed inp"
  shows "launch_ball h inp (expand_decay inp (paddle_control inp (court px bl g sc w gc))) =
         court (paddle_pos inp px) bl g sc w gc"
  using assms
  by (simp add: launch_ball_def expand_decay_def paddle_control_def court_def paddle_pos_def Let_def)

lemma pre_court_waiting:
  assumes "\<not> key_space_pressed inp"
  shows "launch_ball h inp (expand_decay inp (paddle_control inp
           (court px (ball_at x y vx vy False) g sc w gc))) =
         court (paddle_pos inp px) (ball_at (paddle_pos inp px + 70) 656 vx vy False) g sc w gc"
  using assms
  by (simp add: launch_ball_def expand_decay_def paddle_control_def court_def paddle_pos_def Let_def
      ball_at_def)

lemma pre_court_launch:
  assumes "key_space_pressed inp"
  shows "launch_ball h inp (expand_decay inp (paddle_control inp
           (court px (ball_at x y vx vy False) g sc w gc))) =
         court (paddle_pos inp px)
           (ball_at (paddle_pos inp px + 70) 656
              (7 * (if GetRandomValue h gc 0 1 = 0 then - 1 else 1)) (- 7) True) g sc False (Suc gc)"
  using assms
  by (simp add: launch_ball_def expand_decay_def paddle_control_def court_def paddle_pos_def Let_def
      ball_at_def)

lemma update_game_court:
  assumes "\<not> key_p_pressed inp"
  shows "update_game h inp (court px bl g sc w gc) =
         win_check (fold (powerup_step h) [0..<POWERUPS_MAX]
           (life_loss (fold (ball_step h) [0..<BALLS_MAX]
              (launch_ball h inp (expand_decay inp (paddle_control inp (court px bl g sc w gc)))))))"
  using assms by (simp add: update_game_def simulate_def court_def)

lemma ball_step_rest:
  assumes "i \<in> {1, 2, 3, 4}"
  shows "ball_step h i (court px bl g sc w gc) = court px bl g sc w gc"
  using assms by (auto simp: ball_step_def court_def rest_ball_def)

lemma ball_step_inactive:
  assumes "\<not> b_active bl"
  shows "ball_step h 0 (court px bl g sc w gc) = court px bl g sc w gc"
  using assms by (simp add: ball_step_def court_def)

lemma ball_step_court:
  assumes "b_active bl"
  shows "ball_step h 0 (court px bl g sc w gc) =
         ball_bricks h 0 (ball_missed 0
           (court px (paddle_bounce h (player (court px bl g sc w gc)) (wall_reflect (move_ball bl)))
              g sc w gc))"
  using assms by (simp add: ball_step_def court_def Let_def)

lemma ball_missed_court:
  assumes "vec_y (b_pos bl) - b_radius bl \<le> screenHeight"
  shows "ball_missed 0 (court px bl g sc w gc) = court px bl g sc w gc"
  using assms by (simp add: ball_missed_def court_def Let_def)

lemma brick_scan_miss:
  assumes "\<forall>(y, x)\<in>set cs. \<not> brick_hit h b y x s"
  shows "brick_scan h b cs s = s"
  using assms by (induction cs) (auto simp: brick_scan_def brick_test_miss)

lemma grid_cells_iff: "(y, x) \<in> set grid_cells \<longleftrightarrow> y < LINES_OF_BRICKS \<and> x < BRICKS_PER_LINE"
  by (auto simp: grid_cells_def)

lemma grid_rect:
  assumes "grid_ok g" "y < LINES_OF_BRICKS" "x < BRICKS_PER_LINE"
  shows "br_rect (g ! y ! x) =
           \<lparr>rec_x = real x * 96 + 7, rec_y = real y * 38 + 70, rec_width = 84, rec_height = 28\<rparr>"
  using assms by (simp add: grid_ok_def init_brick_def)

lemma ball_bricks_court_miss:
  assumes g: "grid_ok g" and h: "CheckCollisionCircleRec h = circleIntersectsRect"
    and r: "b_radius bl = 12" and y: "262 < vec_y (b_pos bl)"
  shows "ball_bricks h 0 (court px bl g sc w gc) = court px bl g sc w gc"
proof -
  have "\<not> brick_hit h 0 y x (court px bl g sc w gc)"
    if "y < LINES_OF_BRICKS" "x < BRICKS_PER_LINE" for y x
  proof -
    from that have "real y \<le> 4" by simp
    then have "rec_y (br_rect (g ! y ! x)) + rec_height (br_rect (g ! y ! x)) + 12 < vec_y (b_pos bl)"
      using y by (simp add: grid_rect [OF g that])
    then have "\<not> circleIntersectsRect (b_pos bl) 12 (br_rect (g ! y ! x))"
      by (intro circle_miss_below) (simp_all add: grid_rect [OF g that])
    then show ?thesis
      by (simp add: brick_hit_def h r court_def)
  qed
  then have "\<forall>(y, x)\<in>set grid_cells. \<not> brick_hit h 0 y x (court px bl g sc w gc)"
    by (auto simp: grid_cells_iff)
  then show ?thesis
    by (simp add: ball_bricks_scan brick_scan_miss)
qed

lemma life_loss_court:
  assumes "b_active bl \<or> w"
  shows "life_loss (court px bl g sc w gc) = court px bl g sc w gc"
  using assms by (auto simp: life_loss_def court_def)

lemma powerup_loop_court:
  "fold (powerup_step h) [0..<POWERUPS_MAX] (court px bl g sc w gc) = court px bl g sc w gc"
proof -
  have "powerup_step h i (court px bl g sc w gc) = court px bl g sc w gc" if "i < POWERUPS_MAX" for i
    using that by (simp add: powerup_step_def court_def no_powerup_def)
  then show ?thesis
    by (simp add: upt_10)
qed

lemma win_check_court:
  assumes "grid_ok g"
  shows "win_check (court px bl g sc w gc) = court px bl g sc w gc"
proof -
  from assms have "g ! 0 \<in> set g" "g ! 0 ! 0 \<in> set (g ! 0)" "br_active (g ! 0 ! 0)"
    by (simp_all add: grid_ok_def list_all_length)
  then have "list_ex (list_ex br_active) g"
    unfolding list_ex_iff by blast
  then show ?thesis
    by (simp add: win_check_def court_def)
qed

text \<open>A frame in which the ball touches no brick.\<close>

lemma quiet_rest:
  assumes a: "b_active bl" and g: "grid_ok g" and h: "CheckCollisionCircleRec h = circleIntersectsRect"
    and r: "b_radius bl = 12"
    and y: "262 < vec_y (b_pos (move_ball bl))" "vec_y (b_pos (move_ball bl)) \<le> 732"
  shows "win_check (fold (powerup_step h) [0..<POWERUPS_MAX]
           (life_loss (fold (ball_step h) [0..<BALLS_MAX] (court px bl g sc w gc)))) =
         court px (paddle_bounce h (player (court px bl g sc w gc)) (wall_reflect (move_ball bl)))
           g sc w gc"
proof -
  let ?bl = "paddle_bounce h (player (court px bl g sc w gc)) (wall_reflect (move_ball bl))"
  have keep: "b_pos ?bl = b_pos (move_ball bl)" "b_radius ?bl = 12" "b_active ?bl"
    using a r by (simp_all add: paddle_bounce_def wall_reflect_def move_ball_def Let_def)
  have "ball_step h 0 (court px bl g sc w gc) = court px ?bl g sc w gc"
    using y keep by (simp add: ball_step_court [OF a] ball_missed_court
        ball_bricks_court_miss [OF g h])
  then have "fold (ball_step h) [0..<BALLS_MAX] (court px bl g sc w gc) = court px ?bl g sc w gc"
    by (simp add: upt_5 ball_step_rest)
  then show ?thesis
    using keep by (simp add: life_loss_court powerup_loop_court win_check_court [OF g])
qed

lemma frames_Nil: "frames h [] s = s"
  by (simp add: frames_def)

lemma frames_Cons: "frames h (inp # ins) s = frames h ins (update_game h inp s)"
  by (simp add: frames_def)

lemma frames_append: "frames h (xs @ ys) s = frames h ys (frames h xs s)"
  by (simp add: frames_def)

lemma run_frames: "run h (inp # ins) = frames h ins (update_game h inp (init_game static_state))"
  by (simp add: run_def frames_def)

lemma title_start:
  assumes "key_space_pressed inp \<or> key_enter_pressed inp"
  shows "update_game h inp (init_game static_state) = fresh_game"
proof -
  have "gameState (init_game static_state) = GAME_TITLE"
    by (simp add: init_game_fields) (simp add: static_state_def)
  moreover have "init_game (init_game static_state) = init_game static_state"
    by (simp add: init_game_def static_state_def Let_def numeral_eq_Suc)
  ultimately show ?thesis
    using assms by (auto simp: update_game_def fresh_game_def)
qed

lemma waiting_frame:
  assumes k: "\<not> key_p_pressed inp" "\<not> key_space_pressed inp" and g: "grid_ok g"
  shows "update_game h inp (court px (ball_at x y vx vy False) g sc True gc) =
         court (paddle_pos inp px) (ball_at (paddle_pos inp px + 70) 656 vx vy False) g sc True gc"
proof -
  let ?bl = "ball_at (paddle_pos inp px + 70) 656 vx vy False"
  have "fold (ball_step h) [0..<BALLS_MAX] (court (paddle_pos inp px) ?bl g sc True gc) =
      court (paddle_pos inp px) ?bl g sc True gc"
    by (simp add: upt_5 ball_step_rest ball_step_inactive ball_at_def)
  then show ?thesis
    by (simp add: update_game_court [OF k(1)] pre_court_waiting [OF k(2)] life_loss_court
        powerup_loop_court win_check_court [OF g])
qed

lemma waiting_frames:
  assumes k: "\<not> key_p_pressed inp" "\<not> key_space_pressed inp" and g: "grid_ok g"
  shows "frames h (replicate n inp) (court px (ball_at (px + 70) 656 vx vy False) g sc True gc) =
         court ((paddle_pos inp ^^ n) px) (ball_at ((paddle_pos inp ^^ n) px + 70) 656 vx vy False)
           g sc True gc"
proof (induction n arbitrary: px)
  case 0
  show ?case by (simp add: frames_Nil)
next
  case (Suc n)
  show ?case
    by (simp add: frames_Cons waiting_frame [OF k g] Suc.IH funpow_swap1)
qed

lemma free_ball:
  assumes "air_zone (x + vx) (y + vy)" and h: "CheckCollisionCircleRec h = circleIntersectsRect"
  shows "paddle_bounce h (player (court px bl g sc w gc)) (wall_reflect (move_ball (ball_at x y vx vy True))) =
         ball_at (x + vx) (y + vy) vx vy True"
proof -
  let ?m = "ball_at (x + vx) (y + vy) vx vy True"
  have m: "move_ball (ball_at x y vx vy True) = ?m"
    by (simp add: move_ball_def ball_at_def)
  have w: "wall_reflect ?m = ?m"
    using assms(1) by (simp add: wall_reflect_def ball_at_def air_zone_def Let_def)
  have "\<not> circleIntersectsRect (b_pos ?m) 12 (paddleRect (player (court px bl g sc w gc)))"
    using assms(1)
    by (intro circle_miss_above) (simp_all add: paddleRect_def court_def ball_at_def air_zone_def)
  then have "paddle_bounce h (player (court px bl g sc w gc)) ?m = ?m"
    by (simp add: paddle_bounce_def h ball_at_def)
  with m w show ?thesis by simp
qed

lemma flight_frame:
  assumes k: "\<not> key_p_pressed inp" and g: "grid_ok g"
    and h: "CheckCollisionCircleRec h = circleIntersectsRect"
    and z: "free_zone (x + vx) (y + vy)"
  shows "update_game h inp (court px (ball_at x y vx vy True) g sc w gc) =
         court (paddle_pos inp px) (ball_at (x + vx) (y + vy) vx vy True) g sc w gc"
proof -
  let ?B = "ball_at x y vx vy True"
  have a: "b_active ?B" "b_radius ?B = 12"
    by (simp_all add: ball_at_def)
  have y: "262 < vec_y (b_pos (move_ball ?B))" "vec_y (b_pos (move_ball ?B)) \<le> 732"
    using z by (simp_all add: move_ball_def ball_at_def free_zone_def air_zone_def)
  have z': "air_zone (x + vx) (y + vy)"
    using z by (simp add: free_zone_def)
  have pre: "launch_ball h inp (expand_decay inp (paddle_control inp (court px ?B g sc w gc))) =
      court (paddle_pos inp px) ?B g sc w gc"
    using a(1) k by (rule pre_court)
  show ?thesis
    by (simp only: update_game_court [OF k] pre quiet_rest [OF a(1) g h a(2) y] free_ball [OF z' h])
qed

lemma flight_frames:
  assumes k: "\<not> key_p_pressed inp" and g: "grid_ok g"
    and h: "CheckCollisionCircleRec h = circleIntersectsRect"
  shows "(\<forall>k. 1 \<le> k \<and> k \<le> n \<longrightarrow> free_zone (x + real k * vx) (y + real k * vy)) \<Longrightarrow>
         frames h (replicate n inp) (court px (ball_at x y vx vy True) g sc w gc) =
         court ((paddle_pos inp ^^ n) px) (ball_at (x + real n * vx) (y + real n * vy) vx vy True)
           g sc w gc"
proof (induction n arbitrary: px x y)
  case 0
  show ?case by (simp add: frames_Nil)
next
  case (Suc n)
  from Suc.prems have first: "free_zone (x + vx) (y + vy)"
    by (auto dest: spec [of _ 1])
  have rest: "\<forall>k. 1 \<le> k \<and> k \<le> n \<longrightarrow> free_zone (x + vx + real k * vx) (y + vy + real k * vy)"
  proof (intro allI impI)
    fix k assume "1 \<le> k \<and> k \<le> n"
    with Suc.prems have "free_zone (x + real (Suc k) * vx) (y + real (Suc k) * vy)"
      by auto
    then show "free_zone (x + vx + real k * vx) (y + vy + real k * vy)"
      by (simp add: algebra_simps)
  qed
  have "frames h (replicate (Suc n) inp) (court px (ball_at x y vx vy True) g sc w gc) =
      frames h (replicate n inp)
        (court (paddle_pos inp px) (ball_at (x + vx) (y + vy) vx vy True) g sc w gc)"
    by (simp add: frames_Cons flight_frame [OF k g h first])
  also have "\<dots> = court ((paddle_pos inp ^^ n) (paddle_pos inp px))
      (ball_at (x + vx + real n * vx) (y + vy + real n * vy) vx vy True) g sc w gc"
    by (rule Suc.IH [OF rest])
  also have "\<dots> = court ((paddle_pos inp ^^ Suc n) px)
      (ball_at (x + real (Suc n) * vx) (y + real (Suc n) * vy) vx vy True) g sc w gc"
    by (simp add: funpow_swap1 algebra_simps)
  finally show ?case .
qed

lemma paddle_pos_right:
  assumes "0 \<le> px" "px \<le> 820"
  shows "(paddle_pos hold_right ^^ n) px = min (px + 8 * real n) 820"
  using assms
proof (induction n arbitrary: px)
  case 0
  then show ?case by simp
next
  case (Suc n)
  have step: "paddle_pos hold_right px = min (px + 8) 820"
    using Suc.prems by (simp add: paddle_pos_def hold_right_def no_keys_def Let_def)
  have "(paddle_pos hold_right ^^ n) (min (px + 8) 820) = min (min (px + 8) 820 + 8 * real n) 820"
    using Suc.prems by (intro Suc.IH) auto
  then show ?case
    by (simp add: funpow_swap1 step min_def)
qed

lemma paddle_pos_left:
  assumes "0 \<le> px" "px \<le> 820"
  shows "(paddle_pos hold_left ^^ n) px = max (px - 8 * real n) 0"
  using assms
proof (induction n arbitrary: px)
  case 0
  then show ?case by simp
next
  case (Suc n)
  have step: "paddle_pos hold_left px = max (px - 8) 0"
    using Suc.prems by (simp add: paddle_pos_def hold_left_def no_keys_def Let_def)
  have "(paddle_pos hold_left ^^ n) (max (px - 8) 0) = max (max (px - 8) 0 - 8 * real n) 0"
    using Suc.prems by (intro Suc.IH) auto
  then show ?case
    by (simp add: funpow_swap1 step max_def)
qed

lemma paddle_pos_still:
  assumes "0 \<le> px" "px \<le> 820"
  shows "(paddle_pos no_keys ^^ n) px = px"
proof -
  have "paddle_pos no_keys px = px"
    using assms by (simp add: paddle_pos_def no_keys_def Let_def)
  then show ?thesis
    by (induction n) simp_all
qed

lemma brick_scan_hits:
  assumes "distinct cs" "b < length (balls s)"
    and "\<forall>(y, x)\<in>set cs. y < length (bricks s) \<and> x < length (bricks s ! y)"
  shows "brick_scan h b cs s = brick_scan h b (filter (\<lambda>(y, x). brick_hit h b y x s) cs) s"
  using assms
proof (induction cs arbitrary: s)
  case Nil
  show ?case by simp
next
  case (Cons c cs)
  obtain y x where c: "c = (y, x)" by (cases c)
  let ?t = "brick_test h b y x s"
  from Cons.prems c have yx: "y < length (bricks s)" "x < length (bricks s ! y)"
    and notin: "(y, x) \<notin> set cs" and dist: "distinct cs" and b: "b < length (balls s)"
    by auto
  have bt: "b < length (balls ?t)"
    using b by (simp add: brick_test_frame)
  have cells: "\<forall>(y', x')\<in>set cs. y' < length (bricks ?t) \<and> x' < length (bricks ?t ! y')"
    using Cons.prems(3) by (auto simp: brick_test_lengths)
  have same: "brick_hit h b y' x' ?t = brick_hit h b y' x' s" if "(y', x') \<in> set cs" for y' x'
    using that notin by (intro brick_test_other_hit [OF b yx]) auto
  then have filt: "filter (\<lambda>(y, x). brick_hit h b y x ?t) cs =
      filter (\<lambda>(y, x). brick_hit h b y x s) cs"
    by (intro filter_cong) auto
  have "brick_scan h b ((y, x) # cs) s = brick_scan h b cs ?t"
    by (simp add: brick_scan_def)
  also have "\<dots> = brick_scan h b (filter (\<lambda>(y, x). brick_hit h b y x s) cs) ?t"
    using Cons.IH [OF dist bt cells] by (simp only: filt)
  also have "\<dots> = brick_scan h b (filter (\<lambda>(y, x). brick_hit h b y x s) ((y, x) # cs)) s"
    by (cases "brick_hit h b y x s") (simp_all add: brick_scan_def brick_test_miss)
  finally show ?case unfolding c .
qed

lemma distinct_grid_cells: "distinct grid_cells"
  by (simp add: grid_cells_def distinct_product)

lemma court_hits:
  assumes g: "grid_ok g" and h: "CheckCollisionCircleRec h = circleIntersectsRect"
    and r: "b_radius bl = 12"
  shows "ball_bricks h 0 (court px bl g sc w gc) =
         brick_scan h 0 (filter (\<lambda>(y, x). court_hit g (b_pos bl) y x) grid_cells)
           (court px bl g sc w gc)"
proof -
  let ?s = "court px bl g sc w gc"
  have len: "length g = LINES_OF_BRICKS" "\<And>y. y < LINES_OF_BRICKS \<Longrightarrow> length (g ! y) = BRICKS_PER_LINE"
    using g by (simp_all add: grid_ok_def list_all_length)
  have "\<forall>(y, x)\<in>set grid_cells. y < length (bricks ?s) \<and> x < length (bricks ?s ! y)"
    by (auto simp: grid_cells_iff court_def len)
  moreover have "0 < length (balls ?s)"
    by (simp add: court_def)
  ultimately have "brick_scan h 0 grid_cells ?s =
      brick_scan h 0 (filter (\<lambda>(y, x). brick_hit h 0 y x ?s) grid_cells) ?s"
    by (intro brick_scan_hits distinct_grid_cells)
  moreover have "filter (\<lambda>(y, x). brick_hit h 0 y x ?s) grid_cells =
      filter (\<lambda>(y, x). court_hit g (b_pos bl) y x) grid_cells"
    by (intro filter_cong refl)
      (auto simp: grid_cells_iff brick_hit_def h r grid_rect [OF g] court_def court_hit_def)
  ultimately show ?thesis
    by (simp only: ball_bricks_scan)
qed

lemma grid_cells_list:
  "grid_cells =
     [(0, 0), (0, 1), (0, 2), (0, 3), (0, 4), (0, 5), (0, 6), (0, 7), (0, 8), (0, 9),
      (1, 0), (1, 1), (1, 2), (1, 3), (1, 4), (1, 5), (1, 6), (1, 7), (1, 8), (1, 9),
      (2, 0), (2, 1), (2, 2), (2, 3), (2, 4), (2, 5), (2, 6), (2, 7), (2, 8), (2, 9),
      (3, 0), (3, 1), (3, 2), (3, 3), (3, 4), (3, 5), (3, 6), (3, 7), (3, 8), (3, 9),
      (4, 0), (4, 1), (4, 2), (4, 3), (4, 4), (4, 5), (4, 6), (4, 7), (4, 8), (4, 9)]"
  by (simp add: grid_cells_def upt_5 upt_10)

lemma court_hit_rows:
  assumes "y \<le> 3" "224 < vec_y c"
  shows "court_hit g c y x = False"
proof -
  from assms have "real y \<le> 3" by simp
  with assms(2) have "\<not> circleIntersectsRect c 12
       \<lparr>rec_x = real x * 96 + 7, rec_y = real y * 38 + 70, rec_width = 84, rec_height = 28\<rparr>"
    by (intro circle_miss_below) simp_all
  then show ?thesis by (simp add: court_hit_def)
qed

lemma court_hit_right:
  assumes "real x * 96 > vec_x c + 5"
  shows "court_hit g c y x = False"
proof -
  from assms have "\<not> circleIntersectsRect c 12
       \<lparr>rec_x = real x * 96 + 7, rec_y = real y * 38 + 70, rec_width = 84, rec_height = 28\<rparr>"
    by (intro circle_miss_left) simp_all
  then show ?thesis by (simp add: court_hit_def)
qed

lemma court_hit_left:
  assumes "real x * 96 + 103 < vec_x c"
  shows "court_hit g c y x = False"
proof -
  from assms have "\<not> circleIntersectsRect c 12
       \<lparr>rec_x = real x * 96 + 7, rec_y = real y * 38 + 70, rec_width = 84, rec_height = 28\<rparr>"
    by (intro circle_miss_right) simp_all
  then show ?thesis by (simp add: court_hit_def)
qed

lemma fresh_bricks_active:
  assumes "y < LINES_OF_BRICKS" "x < BRICKS_PER_LINE"
  shows "br_active (bricks fresh_game ! y ! x)"
  using assms by (simp add: fresh_game_def init_game_def init_brick_def Let_def)

lemma hits_97_257:
  "filter (\<lambda>(y, x). court_hit (bricks fresh_game) \<lparr>vec_x = 97, vec_y = 257\<rparr> y x) grid_cells =
     [(4, 0), (4, 1)]"
proof -
  have "court_hit (bricks fresh_game) \<lparr>vec_x = 97, vec_y = 257\<rparr> 4 0"
    "court_hit (bricks fresh_game) \<lparr>vec_x = 97, vec_y = 257\<rparr> 4 1"
    by (simp_all add: court_hit_def fresh_bricks_active circleIntersectsRect_def)
  then show ?thesis
    unfolding grid_cells_list by (simp add: court_hit_rows court_hit_right)
qed

lemma hits_543_257:
  "filter (\<lambda>(y, x). court_hit (bricks fresh_game) \<lparr>vec_x = 543, vec_y = 257\<rparr> y x) grid_cells =
     [(4, 5)]"
proof -
  have "court_hit (bricks fresh_game) \<lparr>vec_x = 543, vec_y = 257\<rparr> 4 5"
    by (simp_all add: court_hit_def fresh_bricks_active circleIntersectsRect_def)
  then show ?thesis
    unfolding grid_cells_list by (simp add: court_hit_rows court_hit_right court_hit_left)
qed

lemma grid_ok_update:
  assumes g: "grid_ok g" and c: "(y, x) \<noteq> (0, 0)"
  shows "grid_ok (g[y := (g ! y)[x := (g ! y ! x)\<lparr>br_active := False\<rparr>]])"
proof -
  let ?g = "g[y := (g ! y)[x := (g ! y ! x)\<lparr>br_active := False\<rparr>]]"
  have cell: "?g ! y' ! x' =
      (if y' = y \<and> x' = x \<and> y < length g \<and> x < length (g ! y)
       then (g ! y ! x)\<lparr>br_active := False\<rparr> else g ! y' ! x')" for y' x'
    by (rule nth_nth_update)
  have len: "length ?g = LINES_OF_BRICKS"
    using g by (simp add: grid_ok_def)
  have rows: "length (?g ! i) = BRICKS_PER_LINE" if "i < LINES_OF_BRICKS" for i
    using g that by (cases "i = y") (simp_all add: grid_ok_def list_all_length)
  have rect: "br_rect (?g ! y' ! x') = br_rect (g ! y' ! x')" for y' x'
    by (simp add: cell)
  have act: "br_active (?g ! 0 ! 0)"
    using g c by (auto simp: cell grid_ok_def)
  from len rows rect act g show ?thesis
    by (simp add: grid_ok_def list_all_length)
qed

lemma brick_test_court:
  assumes g: "grid_ok g" and hit: "court_hit g (b_pos bl) y x"
    and yx: "y < LINES_OF_BRICKS" "x < BRICKS_PER_LINE"
    and h: "CheckCollisionCircleRec h = circleIntersectsRect"
    and r: "b_radius bl = 12"
    and quiet: "22 < GetRandomValue h gc 1 100"
  shows "brick_test h 0 y x (court px bl g sc w gc) =
         court px (bl\<lparr>b_spd := (b_spd bl)\<lparr>vec_y := - vec_y (b_spd bl)\<rparr>\<rparr>)
           (g[y := (g ! y)[x := (g ! y ! x)\<lparr>br_active := False\<rparr>]]) (sc + 100) w (Suc gc)"
proof -
  have "brick_hit h 0 y x (court px bl g sc w gc)"
    using hit by (simp add: brick_hit_def court_hit_def h r grid_rect [OF g yx] court_def)
  then show ?thesis
    using quiet by (simp add: brick_test_def Let_def) (simp add: court_def)
qed

lemma ball_step_air:
  assumes h: "CheckCollisionCircleRec h = circleIntersectsRect" and z: "air_zone (x + vx) (y + vy)"
  shows "ball_step h 0 (court px (ball_at x y vx vy True) g sc w gc) =
         ball_bricks h 0 (court px (ball_at (x + vx) (y + vy) vx vy True) g sc w gc)"
proof -
  have a: "b_active (ball_at x y vx vy True)"
    by (simp add: ball_at_def)
  have "vec_y (b_pos (ball_at (x + vx) (y + vy) vx vy True)) -
      b_radius (ball_at (x + vx) (y + vy) vx vy True) \<le> screenHeight"
    using z by (simp add: ball_at_def air_zone_def)
  then show ?thesis
    by (simp only: ball_step_court [OF a] free_ball [OF z h] ball_missed_court)
qed

lemma court_rest:
  assumes a: "b_active bl" and g: "grid_ok g"
  shows "win_check (fold (powerup_step h) [0..<POWERUPS_MAX]
           (life_loss (fold (ball_step h) [1, 2, 3, 4] (court px bl g sc w gc)))) =
         court px bl g sc w gc"
  using a by (simp add: ball_step_rest life_loss_court powerup_loop_court win_check_court [OF g])

lemma keys:
  "\<not> key_p_pressed no_keys" "\<not> key_space_pressed no_keys"
  "\<not> key_p_pressed hold_left" "\<not> key_space_pressed hold_left"
  "\<not> key_p_pressed hold_right" "\<not> key_space_pressed hold_right"
  "\<not> key_p_pressed press_space" "key_space_pressed press_space"
  by (simp_all add: no_keys_def hold_left_def hold_right_def press_space_def)

lemma spec_host_collision: "CheckCollisionCircleRec (spec_host rs gs) = circleIntersectsRect"
  by (simp add: spec_host_def)

lemma launch_frame:
  assumes k: "\<not> key_p_pressed inp" "key_space_pressed inp" and g: "grid_ok g"
    and h: "CheckCollisionCircleRec h = circleIntersectsRect"
    and v: "v = 7 * (if GetRandomValue h gc 0 1 = 0 then - 1 else 1)"
    and z: "free_zone (paddle_pos inp px + 70 + v) 649"
  shows "update_game h inp (court px (ball_at x y vx vy False) g sc w gc) =
         court (paddle_pos inp px) (ball_at (paddle_pos inp px + 70 + v) 649 v (- 7) True)
           g sc False (Suc gc)"
proof -
  let ?B = "ball_at (paddle_pos inp px + 70) 656 v (- 7) True"
  have a: "b_active ?B" "b_radius ?B = 12"
    by (simp_all add: ball_at_def)
  have y: "262 < vec_y (b_pos (move_ball ?B))" "vec_y (b_pos (move_ball ?B)) \<le> 732"
    by (simp_all add: move_ball_def ball_at_def)
  have z': "air_zone (paddle_pos inp px + 70 + v) (656 + - 7)"
    using z by (simp add: free_zone_def)
  have pre: "launch_ball h inp (expand_decay inp (paddle_control inp
      (court px (ball_at x y vx vy False) g sc w gc))) =
      court (paddle_pos inp px) ?B g sc False (Suc gc)"
    unfolding v by (rule pre_court_launch [OF k(2)])
  have "update_game h inp (court px (ball_at x y vx vy False) g sc w gc) =
      court (paddle_pos inp px) (ball_at (paddle_pos inp px + 70 + v) (656 + - 7) v (- 7) True)
           g sc False (Suc gc)"
    by (simp only: update_game_court [OF k(1)] pre quiet_rest [OF a(1) g h a(2) y]
        free_ball [OF z' h])
  then show ?thesis by simp
qed

lemma paddle_pos_once:
  "paddle_pos press_space 426 = 426" "paddle_pos press_space 74 = 74"
  "paddle_pos no_keys 426 = 426" "paddle_pos hold_right 514 = 522"
  "paddle_pos no_keys 820 = 820"
  by (simp_all add: paddle_pos_def press_space_def no_keys_def hold_right_def Let_def)

lemma hostL_draws:
  "GetRandomValue hostL 0 0 1 = 0" "22 < GetRandomValue hostL (Suc k) 1 100"
  by (simp_all add: hostL_def spec_host_def)

lemma hostR_draws:
  "GetRandomValue hostR 0 0 1 = 1" "22 < GetRandomValue hostR (Suc k) 1 100"
  by (simp_all add: hostR_def spec_host_def)

lemma double_trace_state:
  "run hostL double_trace =
     court 426 (ball_at 104 264 (- 7) (- 7) True) (bricks fresh_game) 0 False 1"
proof -
  note h = spec_host_collision [of "\<lambda>_. 0" "\<lambda>k. if k = 0 then 0 else 50", folded hostL_def]
  note g = grid_ok_fresh
  have "run hostL double_trace =
      frames hostL (replicate 55 no_keys) (update_game hostL press_space
        (frames hostL (replicate 2 hold_right) fresh_game))"
    by (simp add: double_trace_def run_frames title_start keys frames_append frames_Cons frames_Nil)
  also have "frames hostL (replicate 2 hold_right) fresh_game =
      court 426 (ball_at 496 656 0 0 False) (bricks fresh_game) 0 True 0"
    by (subst fresh_game_court) (simp add: waiting_frames [OF keys(5,6) g, of _ _ 410, simplified]
        paddle_pos_right)
  also have "update_game hostL press_space \<dots> =
      court 426 (ball_at 489 649 (- 7) (- 7) True) (bricks fresh_game) 0 False 1"
    by (subst launch_frame [OF keys(7,8) g h refl])
      (simp_all add: hostL_draws paddle_pos_once free_zone_def air_zone_def)
  also have "frames hostL (replicate 55 no_keys) \<dots> =
      court 426 (ball_at 104 264 (- 7) (- 7) True) (bricks fresh_game) 0 False 1"
    by (subst flight_frames [OF keys(1) g h])
      (auto simp: free_zone_def air_zone_def paddle_pos_still)
  finally show ?thesis .
qed

lemma break_brick_active:
  assumes "grid_ok g" "y < LINES_OF_BRICKS" "x < BRICKS_PER_LINE"
  shows "br_active (break_brick y x g ! y' ! x') \<longleftrightarrow> br_active (g ! y' ! x') \<and> (y', x') \<noteq> (y, x)"
  using assms by (auto simp: break_brick_def nth_nth_update grid_ok_def list_all_length)

lemma double_hit_frame:
  "update_game hostL no_keys
     (court 426 (ball_at 104 264 (- 7) (- 7) True) (bricks fresh_game) 0 False 1) =
   court 426 (ball_at 97 257 (- 7) (- 7) True)
     (break_brick 4 1 (break_brick 4 0 (bricks fresh_game))) 200 False 3"
proof -
  note h = spec_host_collision [of "\<lambda>_. 0" "\<lambda>k. if k = 0 then 0 else 50", folded hostL_def]
  note g = grid_ok_fresh
  let ?g1 = "break_brick 4 0 (bricks fresh_game)"
  let ?g2 = "break_brick 4 1 ?g1"
  have g1: "grid_ok ?g1" and g2: "grid_ok ?g2"
    unfolding break_brick_def by (intro grid_ok_update g; simp)+
  let ?B = "ball_at 97 257 (- 7) (- 7) True"
  have B: "b_pos ?B = \<lparr>vec_x = 97, vec_y = 257\<rparr>" "b_radius ?B = 12" "b_active ?B"
    "?B\<lparr>b_spd := (b_spd ?B)\<lparr>vec_y := - vec_y (b_spd ?B)\<rparr>\<rparr> = ball_at 97 257 (- 7) 7 True"
    "(ball_at 97 257 (- 7) 7 True)\<lparr>b_spd := (b_spd (ball_at 97 257 (- 7) 7 True))
        \<lparr>vec_y := - vec_y (b_spd (ball_at 97 257 (- 7) 7 True))\<rparr>\<rparr> = ?B"
    "b_pos (ball_at 97 257 (- 7) 7 True) = \<lparr>vec_x = 97, vec_y = 257\<rparr>"
    "b_radius (ball_at 97 257 (- 7) 7 True) = 12"
    by (simp_all add: ball_at_def)
  have hit0: "court_hit (bricks fresh_game) \<lparr>vec_x = 97, vec_y = 257\<rparr> 4 0"
    by (simp add: court_hit_def fresh_bricks_active circleIntersectsRect_def)
  have hit1: "court_hit ?g1 \<lparr>vec_x = 97, vec_y = 257\<rparr> 4 1"
    by (simp add: court_hit_def break_brick_active [OF g] fresh_bricks_active
        circleIntersectsRect_def)
  have "ball_step hostL 0 (court 426 (ball_at 104 264 (- 7) (- 7) True) (bricks fresh_game) 0 False 1) =
      ball_bricks hostL 0 (court 426 ?B (bricks fresh_game) 0 False 1)"
    by (subst ball_step_air [OF h]) (simp_all add: air_zone_def)
  also have "\<dots> = brick_test hostL 0 4 1 (brick_test hostL 0 4 0
      (court 426 ?B (bricks fresh_game) 0 False 1))"
    by (simp add: court_hits [OF g h B(2)] B(1) hits_97_257 brick_scan_def)
  also have "brick_test hostL 0 4 0 (court 426 ?B (bricks fresh_game) 0 False 1) =
      court 426 (ball_at 97 257 (- 7) 7 True) ?g1 100 False 2"
    using brick_test_court [OF g _ _ _ h B(2) hostL_draws(2) [of 0], of 4 0 426 0 False] hit0
    by (simp add: B break_brick_def numeral_2_eq_2)
  also have "brick_test hostL 0 4 1 \<dots> = court 426 ?B ?g2 200 False 3"
    using brick_test_court [OF g1 _ _ _ h B(7) hostL_draws(2) [of 1], of 4 1 426 100 False] hit1
    by (simp add: B break_brick_def numeral_2_eq_2 numeral_3_eq_3)
  finally have step0: "ball_step hostL 0
      (court 426 (ball_at 104 264 (- 7) (- 7) True) (bricks fresh_game) 0 False 1) =
      court 426 ?B ?g2 200 False 3" .
  have pre: "launch_ball hostL no_keys (expand_decay no_keys (paddle_control no_keys
      (court 426 (ball_at 104 264 (- 7) (- 7) True) (bricks fresh_game) 0 False 1))) =
      court 426 (ball_at 104 264 (- 7) (- 7) True) (bricks fresh_game) 0 False 1"
    by (subst pre_court) (simp_all add: keys ball_at_def paddle_pos_once)
  show ?thesis
    by (simp only: update_game_court [OF keys(1)] pre upt_5 fold_simps o_apply step0)
      (simp add: ball_step_rest life_loss_court powerup_loop_court win_check_court [OF g2] B(3)
        del: One_nat_def)
qed

lemma wall_trace_state:
  "run hostR wall_trace =
     court 820 (ball_at (949 + 177 / 35) 656 (- (177 / 35)) (- 7) True)
       (break_brick 4 5 (bricks fresh_game)) 100 False 2"
proof -
  note h = spec_host_collision [of "\<lambda>_. 0" "\<lambda>k. if k = 0 then 1 else 50", folded hostR_def]
  note g = grid_ok_fresh
  let ?g1 = "break_brick 4 5 (bricks fresh_game)"
  have g1: "grid_ok ?g1"
    unfolding break_brick_def by (intro grid_ok_update g) simp
  have "run hostR wall_trace =
      update_game hostR no_keys (update_game hostR no_keys
        (frames hostR (replicate 19 no_keys) (frames hostR (replicate 38 hold_right)
          (update_game hostR hold_right (frames hostR (replicate 55 hold_right)
            (update_game hostR press_space (frames hostR (replicate 42 hold_left) fresh_game)))))))"
    unfolding wall_trace_def
    by (simp add: run_frames title_start keys frames_append frames_Cons frames_Nil)
  also have "frames hostR (replicate 42 hold_left) fresh_game =
      court 74 (ball_at 144 656 0 0 False) (bricks fresh_game) 0 True 0"
    by (subst fresh_game_court) (simp add: waiting_frames [OF keys(3,4) g, of _ _ 410, simplified]
        paddle_pos_left)
  also have "update_game hostR press_space \<dots> =
      court 74 (ball_at 151 649 7 (- 7) True) (bricks fresh_game) 0 False 1"
    by (subst launch_frame [OF keys(7,8) g h refl])
      (simp_all add: hostR_draws paddle_pos_once free_zone_def air_zone_def)
  also have "frames hostR (replicate 55 hold_right) \<dots> =
      court 514 (ball_at 536 264 7 (- 7) True) (bricks fresh_game) 0 False 1"
    by (subst flight_frames [OF keys(5) g h])
      (auto simp: free_zone_def air_zone_def paddle_pos_right)
  also have "update_game hostR hold_right \<dots> = court 522 (ball_at 543 257 7 7 True) ?g1 100 False 2"
  proof -
    let ?B = "ball_at 543 257 7 (- 7) True"
    have B: "b_pos ?B = \<lparr>vec_x = 543, vec_y = 257\<rparr>" "b_radius ?B = 12"
      "?B\<lparr>b_spd := (b_spd ?B)\<lparr>vec_y := - vec_y (b_spd ?B)\<rparr>\<rparr> = ball_at 543 257 7 7 True"
      "b_active (ball_at 543 257 7 7 True)" "b_active (ball_at 536 264 7 (- 7) True)"
      by (simp_all add: ball_at_def)
    have hit: "court_hit (bricks fresh_game) \<lparr>vec_x = 543, vec_y = 257\<rparr> 4 5"
      by (simp add: court_hit_def fresh_bricks_active circleIntersectsRect_def)
    have "ball_step hostR 0 (court 522 (ball_at 536 264 7 (- 7) True) (bricks fresh_game) 0 False 1) =
        ball_bricks hostR 0 (court 522 ?B (bricks fresh_game) 0 False 1)"
      by (subst ball_step_air [OF h]) (simp_all add: air_zone_def)
    also have "\<dots> = brick_test hostR 0 4 5 (court 522 ?B (bricks fresh_game) 0 False 1)"
      by (simp add: court_hits [OF g h B(2)] B(1) hits_543_257 brick_scan_def)
    also have "\<dots> = court 522 (ball_at 543 257 7 7 True) ?g1 100 False 2"
      using brick_test_court [OF g _ _ _ h B(2) hostR_draws(2) [of 0], of 4 5 522 0 False] hit
      by (simp add: B break_brick_def numeral_2_eq_2)
    finally have step0: "ball_step hostR 0
        (court 522 (ball_at 536 264 7 (- 7) True) (bricks fresh_game) 0 False 1) =
        court 522 (ball_at 543 257 7 7 True) ?g1 100 False 2" .
    have pre: "launch_ball hostR hold_right (expand_decay hold_right (paddle_control hold_right
        (court 514 (ball_at 536 264 7 (- 7) True) (bricks fresh_game) 0 False 1))) =
        court 522 (ball_at 536 264 7 (- 7) True) (bricks fresh_game) 0 False 1"
      by (subst pre_court) (simp_all add: keys B paddle_pos_once)
    show ?thesis
      by (simp only: update_game_court [OF keys(5)] pre upt_5 fold_simps o_apply step0)
        (simp add: ball_step_rest life_loss_court powerup_loop_court win_check_court [OF g1] B
          del: One_nat_def)
  qed
  also have "frames hostR (replicate 38 hold_right) \<dots> =
      court 820 (ball_at 809 523 7 7 True) ?g1 100 False 2"
    by (subst flight_frames [OF keys(5) g1 h])
      (auto simp: free_zone_def air_zone_def paddle_pos_right)
  also have "frames hostR (replicate 19 no_keys) \<dots> =
      court 820 (ball_at 942 656 7 7 True) ?g1 100 False 2"
    by (subst flight_frames [OF keys(1) g1 h])
      (auto simp: free_zone_def air_zone_def paddle_pos_still)
  also have "update_game hostR no_keys \<dots> =
      court 820 (ball_at 949 663 (177 / 35) (- 7) True) ?g1 100 False 2"
  proof -
    let ?B = "ball_at 942 656 7 7 True"
    have a: "b_active ?B" "b_radius ?B = 12"
      "262 < vec_y (b_pos (move_ball ?B))" "vec_y (b_pos (move_ball ?B)) \<le> 732"
      by (simp_all add: ball_at_def move_ball_def)
    have pre: "launch_ball hostR no_keys (expand_decay no_keys (paddle_control no_keys
        (court 820 ?B ?g1 100 False 2))) = court 820 ?B ?g1 100 False 2"
      by (subst pre_court) (simp_all add: keys a paddle_pos_once)
    have "paddle_bounce hostR (player (court 820 ?B ?g1 100 False 2)) (wall_reflect (move_ball ?B)) =
        ball_at 949 663 (177 / 35) (- 7) True"
      by (simp add: paddle_bounce_def wall_reflect_def move_ball_def ball_at_def court_def h
          paddleRect_def circleIntersectsRect_def Let_def)
    then show ?thesis
      by (simp only: update_game_court [OF keys(1)] pre quiet_rest [OF a(1) g1 h a(2,3,4)])
  qed
  also have "update_game hostR no_keys \<dots> =
      court 820 (ball_at (949 + 177 / 35) 656 (- (177 / 35)) (- 7) True) ?g1 100 False 2"
  proof -
    let ?B = "ball_at 949 663 (177 / 35) (- 7) True"
    have a: "b_active ?B" "b_radius ?B = 12"
      "262 < vec_y (b_pos (move_ball ?B))" "vec_y (b_pos (move_ball ?B)) \<le> 732"
      by (simp_all add: ball_at_def move_ball_def)
    have pre: "launch_ball hostR no_keys (expand_decay no_keys (paddle_control no_keys
        (court 820 ?B ?g1 100 False 2))) = court 820 ?B ?g1 100 False 2"
      by (subst pre_court) (simp_all add: keys a paddle_pos_once)
    have "paddle_bounce hostR (player (court 820 ?B ?g1 100 False 2)) (wall_reflect (move_ball ?B)) =
        ball_at (949 + 177 / 35) 656 (- (177 / 35)) (- 7) True"
      by (simp add: paddle_bounce_def wall_reflect_def move_ball_def ball_at_def court_def h
          paddleRect_def circleIntersectsRect_def Let_def)
    then show ?thesis
      by (simp only: update_game_court [OF keys(1)] pre quiet_rest [OF a(1) g1 h a(2,3,4)])
  qed
  finally show ?thesis .
qed

lemma filter_single:
  assumes "filter P xs = [a]" "c \<in> set xs"
  shows "P c \<longleftrightarrow> c = a"
proof -
  have "set (filter P xs) = {a}" using assms(1) by simp
  with assms(2) show ?thesis by auto
qed

lemma court_brick_hits:
  assumes g: "grid_ok g" and h: "CheckCollisionCircleRec h = circleIntersectsRect"
    and r: "b_radius bl = 12"
  shows "brick_hits h 0 (court px bl g sc w gc) =
         filter (\<lambda>(y, x). court_hit g (b_pos bl) y x) grid_cells"
  unfolding brick_hits_def
  by (intro filter_cong refl)
    (auto simp: grid_cells_iff brick_hit_def h r grid_rect [OF g] court_def court_hit_def)

lemma wf_state_court: "grid_ok g \<Longrightarrow> wf_state (court px bl g sc w gc)"
  by (simp add: wf_state_def court_def grid_ok_def)

subsection \<open>The order of the scan, and states with several balls or a powerup\<close>

lemma sorted_product:
  assumes "sorted_wrt (<) ys" "sorted_wrt (<) xs"
  shows "sorted_wrt row_major (List.product ys (xs :: nat list))"
  using assms
proof (induction ys)
  case Nil
  show ?case by simp
next
  case (Cons y ys)
  have "sorted_wrt row_major (map (Pair y) xs)"
    using Cons.prems(2) by (simp add: sorted_wrt_map row_major_def)
  moreover have "sorted_wrt row_major (List.product ys xs)"
    using Cons by simp
  moreover have "\<forall>c\<in>set (map (Pair y) xs). \<forall>c'\<in>set (List.product ys xs). row_major c c'"
    using Cons.prems(1) by (auto simp: row_major_def)
  ultimately show ?case
    by (simp add: sorted_wrt_append)
qed

lemma sorted_grid_cells: "sorted_wrt row_major grid_cells"
  unfolding grid_cells_def
  by (intro sorted_product) (simp_all add: sorted_wrt_upt)

lemma brick_hits_order:
  "sorted_wrt row_major (brick_hits h b s)"
  "set (brick_hits h b s) =
     {(y, x). y < LINES_OF_BRICKS \<and> x < BRICKS_PER_LINE \<and> brick_hit h b y x s}"
  unfolding brick_hits_def
  by (auto simp: sorted_wrt_filter sorted_grid_cells grid_cells_iff)

lemma ball_bricks_hits:
  assumes wf: "wf_state s" and b: "b < BALLS_MAX"
  shows "ball_bricks h b s = fold (\<lambda>(y, x). brick_test h b y x) (brick_hits h b s) s"
proof -
  from wf have len: "length (balls s) = BALLS_MAX" "length (bricks s) = LINES_OF_BRICKS"
    "\<And>y. y < LINES_OF_BRICKS \<Longrightarrow> length (bricks s ! y) = BRICKS_PER_LINE"
    by (simp_all add: wf_state_def list_all_length)
  have range: "\<forall>(y, x)\<in>set grid_cells. y < length (bricks s) \<and> x < length (bricks s ! y)"
    by (auto simp: grid_cells_iff len)
  from b len have b': "b < length (balls s)" by simp
  from brick_scan_hits [OF distinct_grid_cells b' range, of h] show ?thesis
    by (simp add: ball_bricks_scan brick_scan_def brick_hits_def)
qed

lemma brick_test_spawn:
  assumes hit: "brick_hit h b y x s" and roll: "GetRandomValue h (grv_calls s) 1 100 \<le> 22"
    and slot: "first_index (\<lambda>p. \<not> pu_active p) (take POWERUPS_MAX (powerups s)) = Some i"
  shows "powerups (brick_test h b y x s) =
           (powerups s)
           [i := \<lparr>pu_pos = \<lparr>vec_x = rec_x (br_rect (bricks s ! y ! x)) + vec_x (brickSize s) / 2,
                            vec_y = rec_y (br_rect (bricks s ! y ! x)) + vec_y (brickSize s) / 2\<rparr>,
                  pu_spd = \<lparr>vec_x = 0, vec_y = 2\<rparr>,
                  pu_type = (if rand h (rand_calls s) mod 100 < 40 then POWERUP_EXPAND
                             else if rand h (rand_calls s) mod 100 < 70 then POWERUP_EXTRA_LIFE
                             else POWERUP_MULTI_BALL),
                  pu_active = True\<rparr>]"
    and "grv_calls (brick_test h b y x s) = Suc (grv_calls s)"
    and "brickSize (brick_test h b y x s) = brickSize s"
    and "rand_calls (brick_test h b y x s) = Suc (rand_calls s)"
  using assms by (simp_all add: brick_test_def spawn_powerup_def Let_def nth_nth_update)

lemma replicate_10: "replicate POWERUPS_MAX x = x # x # replicate 8 x"
  by (simp add: numeral_eq_Suc)

lemma double_spawn:
  "pu_pos (powerups (brick_test host0 0 4 1 (brick_test host0 0 4 0
      (court 426 (ball_at 97 257 (- 7) (- 7) True) (bricks fresh_game) 0 False 0))) ! 0) =
     \<lparr>vec_x = 55, vec_y = 241\<rparr> \<and>
   pu_pos (powerups (brick_test host0 0 4 1 (brick_test host0 0 4 0
      (court 426 (ball_at 97 257 (- 7) (- 7) True) (bricks fresh_game) 0 False 0))) ! 1) =
     \<lparr>vec_x = 151, vec_y = 241\<rparr>"
proof -
  let ?s = "court 426 (ball_at 97 257 (- 7) (- 7) True) (bricks fresh_game) 0 False 0"
  let ?t = "brick_test host0 0 4 0 ?s"
  note g = grid_ok_fresh
  have h: "CheckCollisionCircleRec host0 = circleIntersectsRect"
    by (simp add: host0_def spec_host_def)
  have roll: "GetRandomValue host0 k 1 100 \<le> 22" for k
    by (simp add: host0_def spec_host_def)
  have s: "bricks ?s = bricks fresh_game" "b_pos (balls ?s ! 0) = \<lparr>vec_x = 97, vec_y = 257\<rparr>"
    "b_radius (balls ?s ! 0) = 12"
    "powerups ?s = replicate POWERUPS_MAX no_powerup" "brickSize ?s = \<lparr>vec_x = 96, vec_y = 38\<rparr>"
    "length (balls ?s) = BALLS_MAX"
    by (simp_all add: court_def ball_at_def)
  have rect: "br_rect (bricks fresh_game ! 4 ! 0) =
      \<lparr>rec_x = 7, rec_y = 222, rec_width = 84, rec_height = 28\<rparr>"
    "br_rect (bricks fresh_game ! 4 ! 1) =
      \<lparr>rec_x = 103, rec_y = 222, rec_width = 84, rec_height = 28\<rparr>"
    by (simp_all add: grid_rect [OF g])
  have hit0: "brick_hit host0 0 4 0 ?s"
    by (simp add: brick_hit_def s h rect fresh_bricks_active circleIntersectsRect_def)
  have slot0: "first_index (\<lambda>p. \<not> pu_active p) (take POWERUPS_MAX (powerups ?s)) = Some 0"
    by (simp add: s replicate_10 no_powerup_def)
  note t = brick_test_spawn [OF hit0 roll slot0]
  have len: "4 < length (bricks ?s)" "0 < length (bricks ?s ! 4)" "0 < length (balls ?s)"
    using g by (simp_all add: s grid_ok_def list_all_length)
  have tb: "bricks ?t ! 4 ! 1 = bricks fresh_game ! 4 ! 1"
    "b_pos (balls ?t ! 0) = \<lparr>vec_x = 97, vec_y = 257\<rparr>" "b_radius (balls ?t ! 0) = 12"
    by (simp_all add: brick_test_cell [OF len(1,2)] brick_test_ball(1,2) [OF len(3)] s)
  have hit1: "brick_hit host0 0 4 1 ?t"
    by (simp add: brick_hit_def tb h rect fresh_bricks_active circleIntersectsRect_def
        del: One_nat_def)
  have slot1: "first_index (\<lambda>p. \<not> pu_active p) (take POWERUPS_MAX (powerups ?t)) = Some 1"
    by (simp add: t s replicate_10 no_powerup_def)
  show ?thesis
    by (simp add: brick_test_spawn(1) [OF hit1 roll slot1] t s tb rect replicate_10
        del: One_nat_def) simp
qed

lemma ball_bricks_below:
  assumes g: "grid_ok (bricks s)" and h: "CheckCollisionCircleRec h = circleIntersectsRect"
    and r: "b_radius (balls s ! b) = 12" and y: "262 < vec_y (b_pos (balls s ! b))"
  shows "ball_bricks h b s = s"
proof -
  have "\<not> brick_hit h b y x s" if "y < LINES_OF_BRICKS" "x < BRICKS_PER_LINE" for y x
  proof -
    from that have "real y \<le> 4" by simp
    then have "rec_y (br_rect (bricks s ! y ! x)) + rec_height (br_rect (bricks s ! y ! x)) + 12
        < vec_y (b_pos (balls s ! b))"
      using y by (simp add: grid_rect [OF g that])
    then have "\<not> circleIntersectsRect (b_pos (balls s ! b)) 12 (br_rect (bricks s ! y ! x))"
      by (intro circle_miss_below) (simp_all add: grid_rect [OF g that])
    then show ?thesis
      by (simp add: brick_hit_def h r)
  qed
  then have "\<forall>(y, x)\<in>set grid_cells. \<not> brick_hit h b y x s"
    by (auto simp: grid_cells_iff)
  then show ?thesis
    by (simp add: ball_bricks_scan brick_scan_miss)
qed

lemma bricks_left: "grid_ok g \<Longrightarrow> list_ex (list_ex br_active) g"
proof -
  assume "grid_ok g"
  then have "g ! 0 \<in> set g" "g ! 0 ! 0 \<in> set (g ! 0)" "br_active (g ! 0 ! 0)"
    by (simp_all add: grid_ok_def list_all_length)
  then show ?thesis
    unfolding list_ex_iff by blast
qed

subsection \<open>Frames of several balls\<close>

lemma multi_court_sel [simp]:
  "balls (multi_court bs bc pus gc) = bs"
  "ballsCount (multi_court bs bc pus gc) = bc"
  "powerups (multi_court bs bc pus gc) = pus"
  "grv_calls (multi_court bs bc pus gc) = gc"
  "gameState (multi_court bs bc pus gc) = GAME_PLAYING"
  "\<not> pause (multi_court bs bc pus gc)"
  "\<not> waiting_for_launch (multi_court bs bc pus gc)"
  by (simp_all add: multi_court_def)

lemma multi_court_upd [simp]:
  "(multi_court bs bc pus gc)\<lparr>balls := bs'\<rparr> = multi_court bs' bc pus gc"
  "(multi_court bs bc pus gc)\<lparr>powerups := pus'\<rparr> = multi_court bs bc pus' gc"
  "(multi_court bs bc pus gc)\<lparr>ballsCount := bc'\<rparr> = multi_court bs bc' pus gc"
  "(multi_court bs bc pus gc)\<lparr>grv_calls := gc'\<rparr> = multi_court bs bc pus gc'"
  "(multi_court bs bc pus gc)\<lparr>waiting_for_launch := False\<rparr> = multi_court bs bc pus gc"
  by (simp_all add: multi_court_def)

lemma grid_ok_break: "grid_ok g \<Longrightarrow> (y, x) \<noteq> (0, 0) \<Longrightarrow> grid_ok (break_brick y x g)"
  unfolding break_brick_def by (rule grid_ok_update)

lemma multi_court_grid: "grid_ok (bricks (multi_court bs bc pus gc))"
proof -
  have "grid_ok (break_brick 3 4 (break_brick 4 4 (break_brick 3 3 (break_brick 4 2
      (break_brick 4 3 (break_brick 4 5 (break_brick 4 0 (bricks fresh_game))))))))"
    by (intro grid_ok_break grid_ok_fresh) simp_all
  then show ?thesis
    by (simp add: multi_court_def)
qed


lemma multi_court_player:
  "player (multi_court bs bc pus gc) =
     \<lparr>p_pos = \<lparr>vec_x = 386, vec_y = 670\<rparr>, p_size = \<lparr>vec_x = 140, vec_y = 22\<rparr>,
      p_life = 2, p_speed = 8, p_expanded = False, p_expand_timer = 0\<rparr>"
  by (simp add: multi_court_def)

lemma multi_court_pre:
  assumes "\<not> key_left_down inp" "\<not> key_right_down inp"
  shows "expand_decay inp (paddle_control inp (multi_court bs bc pus gc)) = multi_court bs bc pus gc"
  using assms by (simp add: expand_decay_def paddle_control_def multi_court_def Let_def)

lemma multi_court_launch_idle:
  "b_active (bs ! 0) \<Longrightarrow> launch_ball h inp (multi_court bs bc pus gc) = multi_court bs bc pus gc"
  by (simp add: launch_ball_def Let_def)

lemma multi_court_launch:
  assumes "\<not> b_active (bs ! 0)" "b_radius (bs ! 0) = 12" "key_space_pressed inp"
    and "GetRandomValue h gc 0 1 = 0"
  shows "launch_ball h inp (multi_court bs bc pus gc) =
         multi_court (bs[0 := ball_at 456 656 (- 7) (- 7) True]) bc pus (Suc gc)"
proof -
  have "(bs ! 0)\<lparr>b_pos := \<lparr>vec_x = 456, vec_y = 656\<rparr>, b_active := True,
      b_spd := \<lparr>vec_x = - 7, vec_y = - 7\<rparr>\<rparr> = ball_at 456 656 (- 7) (- 7) True"
    using assms(2) by (cases "bs ! 0") (simp add: ball_at_def)
  then show ?thesis
    using assms by (simp add: launch_ball_def Let_def multi_court_player)
qed

lemma multi_court_ball_step:
  assumes i: "i < length bs" and a: "b_active (bs ! i)" and r: "b_radius (bs ! i) = 12"
    and x: "12 < vec_x (b_pos (bs ! i)) + vec_x (b_spd (bs ! i))"
           "vec_x (b_pos (bs ! i)) + vec_x (b_spd (bs ! i)) < 948"
    and y: "262 < vec_y (b_pos (bs ! i)) + vec_y (b_spd (bs ! i))"
           "vec_y (b_pos (bs ! i)) + vec_y (b_spd (bs ! i)) \<le> 732"
    and p: "vec_y (b_pos (bs ! i)) + vec_y (b_spd (bs ! i)) < 658 \<or>
            538 < vec_x (b_pos (bs ! i)) + vec_x (b_spd (bs ! i))"
    and h: "CheckCollisionCircleRec h = circleIntersectsRect"
  shows "ball_step h i (multi_court bs bc pus gc) =
         multi_court (bs[i := move_ball (bs ! i)]) bc pus gc"
proof -
  let ?m = "move_ball (bs ! i)"
  let ?P = "player (multi_court bs bc pus gc)"
  have w: "wall_reflect ?m = ?m"
    using x y r by (simp add: wall_reflect_def move_ball_def Let_def)
  have "\<not> circleIntersectsRect (b_pos ?m) 12 (paddleRect ?P)"
    using p
  proof
    assume "vec_y (b_pos (bs ! i)) + vec_y (b_spd (bs ! i)) < 658"
    then show ?thesis
      by (intro circle_miss_above) (simp_all add: paddleRect_def multi_court_player move_ball_def)
  next
    assume "538 < vec_x (b_pos (bs ! i)) + vec_x (b_spd (bs ! i))"
    then show ?thesis
      by (intro circle_miss_right) (simp_all add: paddleRect_def multi_court_player move_ball_def)
  qed
  then have pb: "paddle_bounce h ?P ?m = ?m"
    using r by (simp add: paddle_bounce_def h move_ball_def)
  have miss: "ball_missed i (multi_court (bs[i := ?m]) bc pus gc) = multi_court (bs[i := ?m]) bc pus gc"
    using i y r by (simp add: ball_missed_def Let_def move_ball_def)
  have br: "ball_bricks h i (multi_court (bs[i := ?m]) bc pus gc) = multi_court (bs[i := ?m]) bc pus gc"
    using i y r by (intro ball_bricks_below multi_court_grid h) (simp_all add: move_ball_def)
  show ?thesis
    using a by (simp add: ball_step_def w pb miss br)
qed

lemma multi_court_ball_idle:
  "\<not> b_active (bs ! i) \<Longrightarrow> ball_step h i (multi_court bs bc pus gc) = multi_court bs bc pus gc"
  by (simp add: ball_step_def)

lemma multi_court_life:
  "list_ex b_active (take BALLS_MAX bs) \<Longrightarrow>
   life_loss (multi_court bs bc pus gc) = multi_court bs bc pus gc"
  by (simp add: life_loss_def)

lemma multi_court_win: "win_check (multi_court bs bc pus gc) = multi_court bs bc pus gc"
  using bricks_left [OF multi_court_grid [of bs bc pus gc]] by (simp add: win_check_def)

lemma multi_court_powerup_idle:
  "\<not> pu_active (pus ! i) \<Longrightarrow>
   powerup_step h i (multi_court bs bc pus gc) = multi_court bs bc pus gc"
  by (simp add: powerup_step_def)

lemma multi_court_powerup_fall:
  assumes i: "i < length pus" and a: "pu_active (pus ! i)"
    and y: "vec_y (pu_pos (pus ! i)) + vec_y (pu_spd (pus ! i)) < 656"
    and h: "CheckCollisionRecs h = rectIntersectsRect"
  shows "powerup_step h i (multi_court bs bc pus gc) =
         multi_court bs bc
           (pus[i := (pus ! i)\<lparr>pu_pos := (pu_pos (pus ! i))
                        \<lparr>vec_y := vec_y (pu_pos (pus ! i)) + vec_y (pu_spd (pus ! i))\<rparr>\<rparr>]) gc"
  using assms
  by (simp add: powerup_step_def Let_def rectIntersectsRect_def paddleRect_def multi_court_player)

lemma multi_court_powerup_pick:
  assumes i: "i < length pus" and a: "pu_active (pus ! i)"
    and t: "pu_type (pus ! i) = POWERUP_MULTI_BALL"
    and y: "656 \<le> vec_y (pu_pos (pus ! i)) + vec_y (pu_spd (pus ! i))"
           "vec_y (pu_pos (pus ! i)) + vec_y (pu_spd (pus ! i)) \<le> 706"
    and x: "372 \<le> vec_x (pu_pos (pus ! i))" "vec_x (pu_pos (pus ! i)) \<le> 540"
    and h: "CheckCollisionRecs h = rectIntersectsRect"
    and m: "multi_ball h [0..<BALLS_MAX] (multi_court bs bc
           (pus[i := (pus ! i)\<lparr>pu_pos := (pu_pos (pus ! i))
                        \<lparr>vec_y := vec_y (pu_pos (pus ! i)) + vec_y (pu_spd (pus ! i))\<rparr>\<rparr>]) gc) =
          multi_court bs' bc' (pus[i := (pus ! i)\<lparr>pu_pos := (pu_pos (pus ! i))
                        \<lparr>vec_y := vec_y (pu_pos (pus ! i)) + vec_y (pu_spd (pus ! i))\<rparr>\<rparr>]) gc'"
  shows "powerup_step h i (multi_court bs bc pus gc) =
         multi_court bs' bc'
           (pus[i := (pus ! i)\<lparr>pu_pos := (pu_pos (pus ! i))
                        \<lparr>vec_y := vec_y (pu_pos (pus ! i)) + vec_y (pu_spd (pus ! i))\<rparr>,
                      pu_active := False\<rparr>]) gc'"
  using i a t y x
  by (simp add: powerup_step_def Let_def rectIntersectsRect_def paddleRect_def multi_court_player
      h apply_powerup_def m)

lemma multi_court_frame:
  assumes "\<not> key_p_pressed inp"
  shows "update_game h inp (multi_court bs bc pus gc) =
         win_check (fold (powerup_step h) [0..<POWERUPS_MAX]
           (life_loss (fold (ball_step h) [0..<BALLS_MAX]
              (launch_ball h inp (expand_decay inp (paddle_control inp (multi_court bs bc pus gc)))))))"
  using assms by (simp add: update_game_def simulate_def)

lemma hostM_facts:
  "CheckCollisionCircleRec hostM = circleIntersectsRect"
  "CheckCollisionRecs hostM = rectIntersectsRect"
  "GetRandomValue hostM k 0 1 = 0"
  by (simp_all add: hostM_def spec_host_def)


section \<open>The claims\<close>

subsection \<open>Life loss\<close>

text \<open>
  C5. At the life-loss step of a frame: if no ball is active and the launch-wait flag
  is false, the lives go down by exactly one; if the new value is at most 0 the phase
  becomes GameOver; otherwise the phase is unchanged, every ball of the pool is
  inactive, the counter is 1, ball 0 is at rest above the horizontal centre of the
  paddle, and the launch-wait flag is true. With 1 life the outcome is GameOver, with
  2 lives it is 1 life in the same phase.
\<close>

theorem life_loss_step:
  assumes none: "\<not> list_ex b_active (take BALLS_MAX (balls s))"
    and launched: "\<not> waiting_for_launch s"
    and pool: "balls s \<noteq> []"
  shows "p_life (player (life_loss s)) = p_life (player s) - 1 \<and>
         (p_life (player s) - 1 \<le> 0 \<longrightarrow> gameState (life_loss s) = GAME_OVER) \<and>
         (0 < p_life (player s) - 1 \<longrightarrow>
            gameState (life_loss s) = gameState s \<and>
            waiting_for_launch (life_loss s) \<and>
            ballsCount (life_loss s) = 1 \<and>
            length (balls (life_loss s)) = length (balls s) \<and>
            (\<forall>b\<in>set (balls (life_loss s)). \<not> b_active b) \<and>
            balls (life_loss s) ! 0 =
              \<lparr>b_pos = \<lparr>vec_x = vec_x (p_pos (player s)) + vec_x (p_size (player s)) / 2,
                        vec_y = vec_y (p_pos (player s)) - b_radius (balls s ! 0) - 2\<rparr>,
               b_spd = \<lparr>vec_x = 0, vec_y = 0\<rparr>, b_radius = 12, b_active = False\<rparr>)"
proof -
  have "\<not> b_active b" if "b \<in> set (balls (reset_balls pos t))" for b pos t
    using that by (rule all_inactive_reset)
  then show ?thesis
    using none launched pool
    by (auto simp: life_loss_def Let_def) (simp_all add: reset_balls_def)
qed

theorem life_loss_step_witness:
  "\<not> list_ex b_active (take BALLS_MAX (balls (lost_game 2))) \<and>
   \<not> waiting_for_launch (lost_game 2) \<and> balls (lost_game 2) \<noteq> [] \<and>
   gameState (lost_game 2) = GAME_PLAYING \<and>
   p_life (player (life_loss (lost_game 2))) = 1 \<and>
   gameState (life_loss (lost_game 2)) = GAME_PLAYING \<and>
   waiting_for_launch (life_loss (lost_game 2)) \<and>
   b_pos (balls (life_loss (lost_game 2)) ! 0) = \<lparr>vec_x = 480, vec_y = 656\<rparr> \<and>
   \<not> list_ex b_active (take BALLS_MAX (balls (lost_game 1))) \<and>
   \<not> waiting_for_launch (lost_game 1) \<and> balls (lost_game 1) \<noteq> [] \<and>
   p_life (player (life_loss (lost_game 1))) = 0 \<and>
   gameState (life_loss (lost_game 1)) = GAME_OVER"
proof -
  have balls: "balls (lost_game n) =
      \<lparr>b_pos = \<lparr>vec_x = 480, vec_y = 656\<rparr>, b_spd = \<lparr>vec_x = 0, vec_y = 0\<rparr>,
       b_radius = 12, b_active = False\<rparr> #
      replicate 4 \<lparr>b_pos = \<lparr>vec_x = 0, vec_y = 0\<rparr>, b_spd = \<lparr>vec_x = 0, vec_y = 0\<rparr>,
                   b_radius = 0, b_active = False\<rparr>" for n
    by (simp add: lost_game_def fresh_game_def init_game_def static_state_def Let_def
        numeral_eq_Suc)
  have hyp: "\<not> list_ex b_active (take BALLS_MAX (balls (lost_game n)))"
    "\<not> waiting_for_launch (lost_game n)" "balls (lost_game n) \<noteq> []" for n
    unfolding balls by (auto simp: list_ex_iff lost_game_def dest!: in_set_takeD)
  have fields: "p_life (player (lost_game n)) = n" "gameState (lost_game n) = GAME_PLAYING"
    "p_pos (player (lost_game n)) = \<lparr>vec_x = 410, vec_y = 670\<rparr>"
    "p_size (player (lost_game n)) = \<lparr>vec_x = 140, vec_y = 22\<rparr>"
    "b_radius (balls (lost_game n) ! 0) = 12" for n
    unfolding balls by (simp_all add: lost_game_def fresh_game_def init_game_fields)
  show ?thesis
    using life_loss_step [OF hyp, of 2] life_loss_step [OF hyp, of 1]
    by (simp add: hyp fields)
qed

subsection \<open>The paddle bounce\<close>

text \<open>
  C8. When the circle of a ball overlaps the paddle rectangle, the paddle block of
  the step negates the ball's vertical velocity and overwrites its horizontal
  velocity with 6 times the offset of the ball's x position from the horizontal
  centre of the paddle divided by half the paddle width; the old horizontal velocity
  plays no part. For a ball whose x position is the centre of the paddle the new
  horizontal velocity is 0.
\<close>

theorem paddle_bounce_overwrites:
  assumes hit: "CheckCollisionCircleRec h (b_pos b) (b_radius b) (paddleRect p)"
  shows "vec_y (b_spd (paddle_bounce h p b)) = - vec_y (b_spd b) \<and>
         vec_x (b_spd (paddle_bounce h p b)) =
           6 * ((vec_x (b_pos b) - (vec_x (p_pos p) + vec_x (p_size p) / 2)) / (vec_x (p_size p) / 2)) \<and>
         (vec_x (b_pos b) = vec_x (p_pos p) + vec_x (p_size p) / 2 \<longrightarrow>
            vec_x (b_spd (paddle_bounce h p b)) = 0) \<and>
         b_pos (paddle_bounce h p b) = b_pos b \<and>
         b_radius (paddle_bounce h p b) = b_radius b \<and>
         b_active (paddle_bounce h p b) = b_active b"
  using hit by (simp add: paddle_bounce_def Let_def)

theorem paddle_bounce_overwrites_witness:
  "CheckCollisionCircleRec host0 \<lparr>vec_x = 480, vec_y = 663\<rparr> 12 (paddleRect (player fresh_game)) \<and>
   b_spd (paddle_bounce host0 (player fresh_game)
      \<lparr>b_pos = \<lparr>vec_x = 480, vec_y = 663\<rparr>, b_spd = \<lparr>vec_x = 3, vec_y = 7\<rparr>,
       b_radius = 12, b_active = True\<rparr>) = \<lparr>vec_x = 0, vec_y = - 7\<rparr>"
proof -
  let ?b = "\<lparr>b_pos = \<lparr>vec_x = 480, vec_y = 663\<rparr>, b_spd = \<lparr>vec_x = 3, vec_y = 7\<rparr>,
             b_radius = 12, b_active = True\<rparr>"
  have p: "player fresh_game =
      \<lparr>p_pos = \<lparr>vec_x = 410, vec_y = 670\<rparr>, p_size = \<lparr>vec_x = 140, vec_y = 22\<rparr>,
       p_life = PLAYER_MAX_LIFE, p_speed = 8, p_expanded = False, p_expand_timer = 0\<rparr>"
    by (simp add: fresh_game_def init_game_fields)
  have hit: "CheckCollisionCircleRec host0 (b_pos ?b) (b_radius ?b) (paddleRect (player fresh_game))"
    by (simp add: p host0_def spec_host_def circleIntersectsRect_def paddleRect_def)
  from paddle_bounce_overwrites [OF hit] hit show ?thesis
    by (simp add: p vector2.equality)
qed

subsection \<open>The powerup pool\<close>

text \<open>
  C9. \<open>spawn_powerup\<close> with all 10 slots of the pool active changes nothing but the
  state of the random generator: no powerup slot, and neither the paddle, the balls,
  the score nor the phase. When the first inactive slot is \<open>i\<close>, that slot alone is
  overwritten, with the given position, the velocity (0, 2), the active flag, and
  the variant that the draw \<open>r = rand() % 100\<close>, which is below 100, selects: Expand
  for \<open>r < 40\<close>, ExtraLife for \<open>40 \<le> r < 70\<close>, MultiBall for \<open>70 \<le> r\<close>.
\<close>

theorem spawn_powerup_pool:
  assumes len: "length (powerups s) = POWERUPS_MAX"
  shows "((\<forall>i<POWERUPS_MAX. pu_active (powerups s ! i)) \<longrightarrow>
            spawn_powerup h pos s = s\<lparr>rand_calls := Suc (rand_calls s)\<rparr>) \<and>
         (\<forall>i<POWERUPS_MAX. \<not> pu_active (powerups s ! i) \<and> (\<forall>j<i. pu_active (powerups s ! j)) \<longrightarrow>
            spawn_powerup h pos s =
              s\<lparr>rand_calls := Suc (rand_calls s),
                powerups := (powerups s)
                  [i := \<lparr>pu_pos = pos, pu_spd = \<lparr>vec_x = 0, vec_y = 2\<rparr>,
                         pu_type =
                           (if rand h (rand_calls s) mod 100 < 40 then POWERUP_EXPAND
                            else if rand h (rand_calls s) mod 100 < 70 then POWERUP_EXTRA_LIFE
                            else POWERUP_MULTI_BALL),
                         pu_active = True\<rparr>]\<rparr>) \<and>
         rand h (rand_calls s) mod 100 < 100"
proof (intro conjI impI allI)
  assume full: "\<forall>i<POWERUPS_MAX. pu_active (powerups s ! i)"
  have "first_index (\<lambda>p. \<not> pu_active p) (take POWERUPS_MAX (powerups s)) = None"
    using full len by (auto simp: first_index_None in_set_conv_nth)
  then show "spawn_powerup h pos s = s\<lparr>rand_calls := Suc (rand_calls s)\<rparr>"
    by (simp add: spawn_powerup_def)
next
  fix i
  assume i: "i < POWERUPS_MAX"
    and free: "\<not> pu_active (powerups s ! i) \<and> (\<forall>j<i. pu_active (powerups s ! j))"
  have "first_index (\<lambda>p. \<not> pu_active p) (take POWERUPS_MAX (powerups s)) = Some i"
    using i free len by (simp add: first_index_Some)
  then show "spawn_powerup h pos s =
              s\<lparr>rand_calls := Suc (rand_calls s),
                powerups := (powerups s)
                  [i := \<lparr>pu_pos = pos, pu_spd = \<lparr>vec_x = 0, vec_y = 2\<rparr>,
                         pu_type =
                           (if rand h (rand_calls s) mod 100 < 40 then POWERUP_EXPAND
                            else if rand h (rand_calls s) mod 100 < 70 then POWERUP_EXTRA_LIFE
                            else POWERUP_MULTI_BALL),
                         pu_active = True\<rparr>]\<rparr>"
    by (simp add: spawn_powerup_def Let_def)
next
  show "rand h (rand_calls s) mod 100 < 100" by simp
qed

theorem spawn_powerup_pool_witness:
  "length (powerups full_pool) = POWERUPS_MAX \<and>
   list_all pu_active (powerups full_pool) \<and>
   spawn_powerup host0 \<lparr>vec_x = 55, vec_y = 89\<rparr> full_pool =
     full_pool\<lparr>rand_calls := Suc (rand_calls full_pool)\<rparr> \<and>
   length (powerups fresh_game) = POWERUPS_MAX \<and>
   \<not> pu_active (powerups fresh_game ! 0) \<and>
   spawn_powerup host0 \<lparr>vec_x = 55, vec_y = 89\<rparr> fresh_game =
     fresh_game\<lparr>rand_calls := Suc (rand_calls fresh_game),
       powerups := (powerups fresh_game)
         [0 := \<lparr>pu_pos = \<lparr>vec_x = 55, vec_y = 89\<rparr>, pu_spd = \<lparr>vec_x = 0, vec_y = 2\<rparr>,
                pu_type = POWERUP_EXPAND, pu_active = True\<rparr>]\<rparr>"
proof -
  have full: "length (powerups full_pool) = POWERUPS_MAX"
    "\<forall>i<POWERUPS_MAX. pu_active (powerups full_pool ! i)"
    by (simp_all add: full_pool_def)
  have fresh: "length (powerups fresh_game) = POWERUPS_MAX"
    "\<not> pu_active (powerups fresh_game ! 0)"
    by (simp_all add: fresh_game_def init_game_def static_state_def Let_def)
  have r: "rand host0 k mod 100 = 0" for k
    by (simp add: host0_def spec_host_def)
  have all: "list_all pu_active (powerups full_pool)"
    by (simp add: full_pool_def list_all_iff)
  from spawn_powerup_pool [OF full(1), of host0 "\<lparr>vec_x = 55, vec_y = 89\<rparr>"]
    spawn_powerup_pool [OF fresh(1), of host0 "\<lparr>vec_x = 55, vec_y = 89\<rparr>"] full fresh all
  show ?thesis
    by (simp add: r)
qed

subsection \<open>The paddle stays on its row\<close>

text \<open>
  C10. In every state the process reaches, after any number of frames with any
  inputs, the paddle's vertical position is \<open>screenHeight - 50 = 670\<close> and its height
  is 22: no block of \<open>update_game\<close> changes them.
\<close>

theorem paddle_row_constant:
  "vec_y (p_pos (player (run h ins))) = screenHeight - 50 \<and>
   vec_y (p_size (player (run h ins))) = 22"
  using paddle_row_run [of h ins] by (simp add: paddle_row_def)

subsection \<open>Bricks only disappear, and the game is won when none is left\<close>

text \<open>
  C7. In a frame of the playing phase no brick changes its rectangle and no brick
  becomes active: the bricks active after the frame were active before it. After the
  frame the phase is Win if and only if no brick is active.
\<close>

theorem bricks_monotone_win:
  assumes playing: "gameState (run h ins) = GAME_PLAYING"
  shows "(\<forall>y<LINES_OF_BRICKS. \<forall>x<BRICKS_PER_LINE.
            br_rect (bricks (run h (ins @ [inp])) ! y ! x) = br_rect (bricks (run h ins) ! y ! x) \<and>
            (br_active (bricks (run h (ins @ [inp])) ! y ! x) \<longrightarrow>
               br_active (bricks (run h ins) ! y ! x))) \<and>
         (gameState (run h (ins @ [inp])) = GAME_WIN \<longleftrightarrow>
            active_bricks (run h (ins @ [inp])) = 0)"
proof -
  define s where "s = run h ins"
  define t where "t = (if key_p_pressed inp then s\<lparr>pause := \<not> pause s\<rparr> else s)"
  define s' where "s' = run h (ins @ [inp])"
  have t: "gameState t = GAME_PLAYING" "bricks t = bricks s"
    using playing by (simp_all add: t_def s_def)
  have step: "s' = (if \<not> pause t then simulate h inp t else t)"
    using playing by (simp add: s'_def s_def t_def run_snoc update_game_def Let_def)
  have decay: "bricks_decay s s'"
  proof (cases "pause t")
    case True
    with step t show ?thesis by (simp add: bricks_decay_eq)
  next
    case False
    have "bricks_decay s t" using t by (simp add: bricks_decay_eq)
    moreover have "bricks_decay t (simulate h inp t)" by (rule simulate_decay)
    ultimately have "bricks_decay s (simulate h inp t)" by (rule bricks_decay_trans)
    with False step show ?thesis by simp
  qed
  have win: "gameState s' = GAME_WIN \<longleftrightarrow> active_bricks s' = 0"
  proof (cases "pause t")
    case True
    have "active_bricks t = active_bricks s"
      using t by (simp add: active_bricks_def)
    moreover have "active_bricks s \<noteq> 0"
      using playing_has_bricks [OF playing] by (simp add: s_def)
    ultimately show ?thesis using True step t by simp
  next
    case False
    with step simulate_win [OF t(1), of h inp] show ?thesis by simp
  qed
  from decay win show ?thesis
    unfolding bricks_decay_def s'_def s_def by blast
qed

theorem bricks_monotone_win_witness:
  "gameState (run hostL double_trace) = GAME_PLAYING \<and>
   br_active (bricks (run hostL double_trace) ! 4 ! 0) \<and>
   \<not> br_active (bricks (run hostL (double_trace @ [no_keys])) ! 4 ! 0) \<and>
   br_rect (bricks (run hostL (double_trace @ [no_keys])) ! 4 ! 0) =
     br_rect (bricks (run hostL double_trace) ! 4 ! 0) \<and>
   br_active (bricks (run hostL (double_trace @ [no_keys])) ! 0 ! 0) \<and>
   br_active (bricks (run hostL double_trace) ! 0 ! 0) \<and>
   gameState (run hostL (double_trace @ [no_keys])) = GAME_PLAYING \<and>
   active_bricks (run hostL (double_trace @ [no_keys])) \<noteq> 0"
proof -
  have g1: "grid_ok (break_brick 4 0 (bricks fresh_game))"
    unfolding break_brick_def by (intro grid_ok_update grid_ok_fresh) simp
  have before: "gameState (run hostL double_trace) = GAME_PLAYING"
    "br_active (bricks (run hostL double_trace) ! 4 ! 0)"
    "br_active (bricks (run hostL double_trace) ! 0 ! 0)"
    unfolding double_trace_state by (simp_all add: court_def fresh_bricks_active)
  have after: "gameState (run hostL (double_trace @ [no_keys])) = GAME_PLAYING"
    "\<not> br_active (bricks (run hostL (double_trace @ [no_keys])) ! 4 ! 0)"
    "br_active (bricks (run hostL (double_trace @ [no_keys])) ! 0 ! 0)"
    unfolding run_snoc double_trace_state double_hit_frame
    by (simp_all add: court_def fresh_bricks_active break_brick_active [OF g1]
        break_brick_active [OF grid_ok_fresh])
  note T = bricks_monotone_win [OF before(1), of no_keys]
  from T have "br_rect (bricks (run hostL (double_trace @ [no_keys])) ! 4 ! 0) =
      br_rect (bricks (run hostL double_trace) ! 4 ! 0)"
    by simp
  moreover from T after(1) have "active_bricks (run hostL (double_trace @ [no_keys])) \<noteq> 0"
    by auto
  ultimately show ?thesis
    using before after by blast
qed

subsection \<open>A new game after a lost one\<close>

text \<open>
  C6. From any state in the GameOver phase, the confirm input leads to Title, and the
  start input then gives a game whose score is 0, whose lives are 3, whose ball
  counter is 1, in which every ball is inactive and ball 0 rests above the centre of
  the paddle, all 50 bricks are active, every powerup slot is inactive, pause is
  false and launch-wait is true; the paddle, the bricks, ball 0, the score and the
  flags are those of the game that the start input gives at process start.
  Every GameOver state of a process has a ball pool of 5 slots (\<open>wf_run\<close>).
\<close>

theorem round_trip_reset:
  assumes over: "gameState s = GAME_OVER"
    and pool: "balls s \<noteq> []"
    and confirm: "key_enter_pressed c \<or> key_space_pressed c"
    and start: "key_space_pressed st \<or> key_enter_pressed st"
  shows "gameState (update_game h c s) = GAME_TITLE \<and>
         (let s' = update_game h st (update_game h c s);
              fresh = update_game h st (init_game static_state)
          in gameState s' = GAME_PLAYING \<and>
             score s' = 0 \<and>
             p_life (player s') = PLAYER_MAX_LIFE \<and>
             ballsCount s' = 1 \<and>
             (\<forall>b\<in>set (balls s'). \<not> b_active b) \<and>
             balls s' ! 0 =
               \<lparr>b_pos = \<lparr>vec_x = vec_x (p_pos (player s')) + vec_x (p_size (player s')) / 2,
                         vec_y = vec_y (p_pos (player s')) - 12 - 2\<rparr>,
                b_spd = \<lparr>vec_x = 0, vec_y = 0\<rparr>, b_radius = 12, b_active = False\<rparr> \<and>
             active_bricks s' = LINES_OF_BRICKS * BRICKS_PER_LINE \<and>
             (\<forall>p\<in>set (powerups s'). \<not> pu_active p) \<and>
             \<not> pause s' \<and>
             waiting_for_launch s' \<and>
             player s' = player fresh \<and> bricks s' = bricks fresh \<and>
             brickSize s' = brickSize fresh \<and> balls s' ! 0 = balls fresh ! 0 \<and>
             gameState s' = gameState fresh \<and> score s' = score fresh \<and>
             ballsCount s' = ballsCount fresh \<and> pause s' = pause fresh \<and>
             waiting_for_launch s' = waiting_for_launch fresh)"
proof -
  let ?t = "s\<lparr>gameState := GAME_TITLE\<rparr>"
  have c: "update_game h c s = ?t"
    using over confirm by (auto simp: update_game_def)
  have st: "update_game h st ?t = (init_game ?t)\<lparr>gameState := GAME_PLAYING\<rparr>"
    using start by (auto simp: update_game_def)
  have fr: "update_game h st (init_game static_state) =
      (init_game (init_game static_state))\<lparr>gameState := GAME_PLAYING\<rparr>"
    using start by (auto simp: update_game_def init_game_fields static_state_def)
  have count: "active_bricks ((init_game u)\<lparr>gameState := g\<rparr>) = LINES_OF_BRICKS * BRICKS_PER_LINE"
    for u g
    by (simp add: active_bricks_def init_game_def Let_def init_brick_def length_concat
        comp_def sum_list_triv)
  have "length (balls (init_game static_state)) = BALLS_MAX"
    by (simp add: init_game_fields) (simp add: static_state_def)
  then have "balls (init_game static_state) \<noteq> []"
    by auto
  with pool have b0: "balls (init_game ?t) ! 0 = balls (init_game (init_game static_state)) ! 0"
    by (simp add: init_game_ball0)
  show ?thesis
    unfolding c st fr Let_def
    using pool init_game_inactive [of ?t] b0
      init_game_bricks [of ?t "init_game static_state"]
    by (simp add: init_game_fields init_game_ball0 count)
qed

theorem round_trip_reset_witness:
  "gameState over_game = GAME_OVER \<and> balls over_game \<noteq> [] \<and> score over_game = 300 \<and>
   key_enter_pressed press_enter \<and> key_space_pressed press_space \<and>
   gameState (update_game host0 press_enter over_game) = GAME_TITLE \<and>
   gameState (update_game host0 press_space (update_game host0 press_enter over_game)) =
     GAME_PLAYING \<and>
   score (update_game host0 press_space (update_game host0 press_enter over_game)) = 0 \<and>
   p_life (player (update_game host0 press_space (update_game host0 press_enter over_game))) =
     PLAYER_MAX_LIFE"
proof -
  have over: "gameState over_game = GAME_OVER" "score over_game = 300"
    by (simp_all add: over_game_def)
  have "length (balls over_game) = BALLS_MAX"
    by (simp add: over_game_def lost_game_def fresh_game_def init_game_fields)
      (simp add: static_state_def)
  then have pool: "balls over_game \<noteq> []"
    by auto
  have keys: "key_enter_pressed press_enter \<or> key_space_pressed press_enter"
    "key_space_pressed press_space \<or> key_enter_pressed press_space"
    by (simp_all add: press_enter_def press_space_def)
  have k: "key_enter_pressed press_enter" "key_space_pressed press_space"
    by (simp_all add: press_enter_def press_space_def)
  from round_trip_reset [OF over(1) pool keys, of host0] over pool k show ?thesis
    unfolding Let_def by blast
qed

subsection \<open>Bricks hit in one frame\<close>

text \<open>
  C1 as stated fails: the loops over the bricks have no \<^verbatim>\<open>break\<close>. In the game
  \<open>double_trace\<close> the ball is active, the bricks (4, 0) and (4, 1) are active, the
  score is 0 and the ball moves up; one frame later both bricks are inactive, the
  score is 200 and the ball still moves up, its vertical velocity negated twice.
\<close>

theorem first_brick_only_counterexample:
  "gameState (run hostL double_trace) = GAME_PLAYING \<and>
   b_active (balls (run hostL double_trace) ! 0) \<and>
   br_active (bricks (run hostL double_trace) ! 4 ! 0) \<and>
   br_active (bricks (run hostL double_trace) ! 4 ! 1) \<and>
   score (run hostL double_trace) = 0 \<and>
   vec_y (b_spd (balls (run hostL double_trace) ! 0)) = - 7 \<and>
   \<not> br_active (bricks (run hostL (double_trace @ [no_keys])) ! 4 ! 0) \<and>
   \<not> br_active (bricks (run hostL (double_trace @ [no_keys])) ! 4 ! 1) \<and>
   score (run hostL (double_trace @ [no_keys])) = 200 \<and>
   vec_y (b_spd (balls (run hostL (double_trace @ [no_keys])) ! 0)) = - 7"
proof -
  have g1: "grid_ok (break_brick 4 0 (bricks fresh_game))"
    unfolding break_brick_def by (intro grid_ok_update grid_ok_fresh) simp
  show ?thesis
    unfolding run_snoc double_trace_state double_hit_frame
    by (simp add: court_def ball_at_def fresh_bricks_active break_brick_active [OF g1]
        break_brick_active [OF grid_ok_fresh])
qed

text \<open>
  C1, amended. For a ball of the pool, the pass over the bricks tests the cells in
  row-major order: it is the body of the loops run on \<open>brick_hits\<close>, the active
  bricks that the circle of the ball overlaps, listed in strictly increasing
  row-major order (so the powerups of the pass are spawned in that order). Every
  one of these bricks is deactivated, and no other; no rectangle changes; the score
  grows by 100 for each of these bricks and the vertical velocity of the ball is
  negated once for each. When the ball overlaps exactly one active brick, exactly
  that brick is deactivated, the score grows by 100 and the vertical velocity
  changes its sign.
\<close>

theorem ball_bricks_all_hits:
  assumes wf: "wf_state s" and b: "b < BALLS_MAX"
  shows "ball_bricks h b s = fold (\<lambda>(y, x). brick_test h b y x) (brick_hits h b s) s \<and>
         sorted_wrt row_major (brick_hits h b s) \<and>
         set (brick_hits h b s) =
           {(y, x). y < LINES_OF_BRICKS \<and> x < BRICKS_PER_LINE \<and> brick_hit h b y x s} \<and>
         (\<forall>y<LINES_OF_BRICKS. \<forall>x<BRICKS_PER_LINE.
            br_rect (bricks (ball_bricks h b s) ! y ! x) = br_rect (bricks s ! y ! x) \<and>
            (br_active (bricks (ball_bricks h b s) ! y ! x) \<longleftrightarrow>
               br_active (bricks s ! y ! x) \<and> \<not> brick_hit h b y x s)) \<and>
         score (ball_bricks h b s) = score s + 100 * int (length (brick_hits h b s)) \<and>
         vec_y (b_spd (balls (ball_bricks h b s) ! b)) =
           (- 1) ^ length (brick_hits h b s) * vec_y (b_spd (balls s ! b)) \<and>
         (\<forall>y0 x0. brick_hits h b s = [(y0, x0)] \<longrightarrow>
            score (ball_bricks h b s) = score s + 100 \<and>
            vec_y (b_spd (balls (ball_bricks h b s) ! b)) = - vec_y (b_spd (balls s ! b)) \<and>
            (\<forall>y<LINES_OF_BRICKS. \<forall>x<BRICKS_PER_LINE.
               br_active (bricks (ball_bricks h b s) ! y ! x) \<longleftrightarrow>
                 br_active (bricks s ! y ! x) \<and> (y, x) \<noteq> (y0, x0)))"
proof -
  let ?t = "ball_bricks h b s"
  from wf have len: "length (balls s) = BALLS_MAX" "length (bricks s) = LINES_OF_BRICKS"
    "\<And>y. y < LINES_OF_BRICKS \<Longrightarrow> length (bricks s ! y) = BRICKS_PER_LINE"
    by (simp_all add: wf_state_def list_all_length)
  have range: "\<forall>(y, x)\<in>set grid_cells. y < length (bricks s) \<and> x < length (bricks s ! y)"
    by (auto simp: grid_cells_iff len)
  from b len have b': "b < length (balls s)" by simp
  note eff = brick_scan_effect [OF distinct_grid_cells b' range, of h,
      folded ball_bricks_scan brick_hits_def]
  from eff have score: "score ?t = score s + 100 * int (length (brick_hits h b s))"
    and spd: "vec_y (b_spd (balls ?t ! b)) =
      (- 1) ^ length (brick_hits h b s) * vec_y (b_spd (balls s ! b))"
    and cell: "\<And>y x. bricks ?t ! y ! x =
      (if (y, x) \<in> set grid_cells \<and> brick_hit h b y x s
       then (bricks s ! y ! x)\<lparr>br_active := False\<rparr> else bricks s ! y ! x)"
    by blast+
  have grid: "br_rect (bricks ?t ! y ! x) = br_rect (bricks s ! y ! x) \<and>
      (br_active (bricks ?t ! y ! x) \<longleftrightarrow> br_active (bricks s ! y ! x) \<and> \<not> brick_hit h b y x s)"
    if "y < LINES_OF_BRICKS" "x < BRICKS_PER_LINE" for y x
    using that by (simp add: cell grid_cells_iff)
  have single: "score ?t = score s + 100 \<and>
      vec_y (b_spd (balls ?t ! b)) = - vec_y (b_spd (balls s ! b)) \<and>
      (\<forall>y<LINES_OF_BRICKS. \<forall>x<BRICKS_PER_LINE.
         br_active (bricks ?t ! y ! x) \<longleftrightarrow> br_active (bricks s ! y ! x) \<and> (y, x) \<noteq> (y0, x0))"
    if one: "brick_hits h b s = [(y0, x0)]" for y0 x0
  proof -
    have "brick_hit h b y x s \<longleftrightarrow> (y, x) = (y0, x0)"
      if "y < LINES_OF_BRICKS" "x < BRICKS_PER_LINE" for y x
      using filter_single [OF one [unfolded brick_hits_def], of "(y, x)"] that
      by (simp add: grid_cells_iff)
    moreover from one have "(y0, x0) \<in> set (brick_hits h b s)" by simp
    then have "brick_hit h b y0 x0 s" by (simp add: brick_hits_def)
    then have "br_active (bricks s ! y0 ! x0)" by (simp add: brick_hit_def)
    ultimately show ?thesis
      using score spd grid by (auto simp: one)
  qed
  note order = ball_bricks_hits [OF wf b, of h] brick_hits_order [of h b s]
  from order grid score spd single show ?thesis by blast
qed

theorem ball_bricks_all_hits_witness:
  "wf_state (court 522 (ball_at 543 257 7 (- 7) True) (bricks fresh_game) 0 False 0) \<and>
   brick_hits hostR 0 (court 522 (ball_at 543 257 7 (- 7) True) (bricks fresh_game) 0 False 0) =
     [(4, 5)] \<and>
   score (ball_bricks hostR 0
     (court 522 (ball_at 543 257 7 (- 7) True) (bricks fresh_game) 0 False 0)) = 100 \<and>
   vec_y (b_spd (balls (ball_bricks hostR 0
     (court 522 (ball_at 543 257 7 (- 7) True) (bricks fresh_game) 0 False 0)) ! 0)) = 7 \<and>
   \<not> br_active (bricks (ball_bricks hostR 0
     (court 522 (ball_at 543 257 7 (- 7) True) (bricks fresh_game) 0 False 0)) ! 4 ! 5) \<and>
   br_active (bricks (ball_bricks hostR 0
     (court 522 (ball_at 543 257 7 (- 7) True) (bricks fresh_game) 0 False 0)) ! 4 ! 4) \<and>
   wf_state (court 426 (ball_at 97 257 (- 7) (- 7) True) (bricks fresh_game) 0 False 0) \<and>
   brick_hits host0 0 (court 426 (ball_at 97 257 (- 7) (- 7) True) (bricks fresh_game) 0 False 0) =
     [(4, 0), (4, 1)] \<and>
   score (ball_bricks host0 0
     (court 426 (ball_at 97 257 (- 7) (- 7) True) (bricks fresh_game) 0 False 0)) = 200 \<and>
   vec_y (b_spd (balls (ball_bricks host0 0
     (court 426 (ball_at 97 257 (- 7) (- 7) True) (bricks fresh_game) 0 False 0)) ! 0)) = - 7 \<and>
   pu_pos (powerups (ball_bricks host0 0
     (court 426 (ball_at 97 257 (- 7) (- 7) True) (bricks fresh_game) 0 False 0)) ! 0) =
     \<lparr>vec_x = 55, vec_y = 241\<rparr> \<and>
   pu_pos (powerups (ball_bricks host0 0
     (court 426 (ball_at 97 257 (- 7) (- 7) True) (bricks fresh_game) 0 False 0)) ! 1) =
     \<lparr>vec_x = 151, vec_y = 241\<rparr>"
proof -
  let ?s = "court 522 (ball_at 543 257 7 (- 7) True) (bricks fresh_game) 0 False 0"
  let ?d = "court 426 (ball_at 97 257 (- 7) (- 7) True) (bricks fresh_game) 0 False 0"
  note h = spec_host_collision [of "\<lambda>_. 0" "\<lambda>k. if k = 0 then 1 else 50", folded hostR_def]
  note h0 = spec_host_collision [of "\<lambda>_. 0" "\<lambda>_. 0", folded host0_def]
  have wf: "wf_state ?s" "wf_state ?d"
    by (rule wf_state_court [OF grid_ok_fresh])+
  have hits: "brick_hits hostR 0 ?s = [(4, 5)]"
    by (simp add: court_brick_hits [OF grid_ok_fresh h] ball_at_def hits_543_257)
  have hits2: "brick_hits host0 0 ?d = [(4, 0), (4, 1)]"
    by (simp add: court_brick_hits [OF grid_ok_fresh h0] ball_at_def hits_97_257)
  have s: "score ?s = 0" "vec_y (b_spd (balls ?s ! 0)) = - 7" "bricks ?s = bricks fresh_game"
    "score ?d = 0" "vec_y (b_spd (balls ?d ! 0)) = - 7"
    by (simp_all add: court_def ball_at_def)
  have b: "(0::nat) < BALLS_MAX" by simp
  note T = ball_bricks_all_hits [OF wf(1) b, of hostR]
  note D = ball_bricks_all_hits [OF wf(2) b, of host0]
  from T hits have score: "score (ball_bricks hostR 0 ?s) = score ?s + 100"
    by blast
  from T hits have spd: "vec_y (b_spd (balls (ball_bricks hostR 0 ?s) ! 0)) =
      - vec_y (b_spd (balls ?s ! 0))"
    by blast
  from T hits have cells: "\<forall>y<LINES_OF_BRICKS. \<forall>x<BRICKS_PER_LINE.
      br_active (bricks (ball_bricks hostR 0 ?s) ! y ! x) \<longleftrightarrow>
        br_active (bricks ?s ! y ! x) \<and> (y, x) \<noteq> (4, 5)"
    by blast
  from cells have one: "\<not> br_active (bricks (ball_bricks hostR 0 ?s) ! 4 ! 5)"
    "br_active (bricks (ball_bricks hostR 0 ?s) ! 4 ! 4)"
    by (simp_all add: s fresh_bricks_active)
  from D have "ball_bricks host0 0 ?d =
      fold (\<lambda>(y, x). brick_test host0 0 y x) (brick_hits host0 0 ?d) ?d"
    by blast
  then have two: "ball_bricks host0 0 ?d = brick_test host0 0 4 1 (brick_test host0 0 4 0 ?d)"
    by (simp add: hits2)
  from D have "score (ball_bricks host0 0 ?d) =
      score ?d + 100 * int (length (brick_hits host0 0 ?d))"
    by blast
  then have score2: "score (ball_bricks host0 0 ?d) = 200"
    by (simp add: hits2 s)
  from D have "vec_y (b_spd (balls (ball_bricks host0 0 ?d) ! 0)) =
      (- 1) ^ length (brick_hits host0 0 ?d) * vec_y (b_spd (balls ?d ! 0))"
    by blast
  then have spd2: "vec_y (b_spd (balls (ball_bricks host0 0 ?d) ! 0)) = - 7"
    by (simp add: hits2 s)
  from wf hits hits2 score spd one score2 spd2 double_spawn show ?thesis
    unfolding two [symmetric] by (simp add: s)
qed

subsection \<open>Walls\<close>

text \<open>
  C4 as stated fails: the wall block negates the velocity whenever the ball is in
  contact, whatever its direction. After the frames of \<open>wall_trace\<close>, in which the
  paddle bounce gave the ball a horizontal velocity of 177/35 inside the contact zone
  of the right wall, the ball of slot 0 is active and, right after the wall block of
  the next frame, its right edge is at 961 and its horizontal velocity is positive.
\<close>

theorem wall_reflect_inward_counterexample:
  "gameState (run hostR wall_trace) = GAME_PLAYING \<and> \<not> pause (run hostR wall_trace) \<and>
   b_active (balls (launch_ball hostR no_keys (expand_decay no_keys
      (paddle_control no_keys (run hostR wall_trace)))) ! 0) \<and>
   screenWidth \<le>
     vec_x (b_pos (wall_reflect (move_ball (balls (launch_ball hostR no_keys (expand_decay no_keys
       (paddle_control no_keys (run hostR wall_trace)))) ! 0)))) +
     b_radius (wall_reflect (move_ball (balls (launch_ball hostR no_keys (expand_decay no_keys
       (paddle_control no_keys (run hostR wall_trace)))) ! 0))) \<and>
   0 < vec_x (b_spd (wall_reflect (move_ball (balls (launch_ball hostR no_keys (expand_decay no_keys
       (paddle_control no_keys (run hostR wall_trace)))) ! 0))))"
proof -
  let ?B = "ball_at (949 + 177 / 35) 656 (- (177 / 35)) (- 7) True"
  have pre: "launch_ball hostR no_keys (expand_decay no_keys (paddle_control no_keys
      (court 820 ?B (break_brick 4 5 (bricks fresh_game)) 100 False 2))) =
      court 820 ?B (break_brick 4 5 (bricks fresh_game)) 100 False 2"
    by (subst pre_court) (simp_all add: keys ball_at_def paddle_pos_once)
  have ball: "balls (court 820 ?B (break_brick 4 5 (bricks fresh_game)) 100 False 2) ! 0 = ?B"
    by (simp add: court_def)
  have "wall_reflect (move_ball ?B) = ball_at 949 649 (177 / 35) (- 7) True"
    by (simp add: wall_reflect_def move_ball_def ball_at_def Let_def)
  then show ?thesis
    unfolding wall_trace_state pre ball
    by (simp add: ball_at_def) (simp add: court_def)
qed

text \<open>
  C4, amended. The wall block negates the horizontal velocity of a ball whose left
  edge is at or past the left boundary or whose right edge is at or past the right
  boundary, and leaves it as it is otherwise; it negates the vertical velocity of a
  ball whose top edge is at or past the top boundary, and leaves it as it is
  otherwise. Hence a ball that touches a boundary while moving towards it (or not
  moving along that axis) moves away from it, or not at all along that axis, after
  the block: left contact with \<open>spd.x \<le> 0\<close> gives \<open>spd.x \<ge> 0\<close>, right contact with
  \<open>spd.x \<ge> 0\<close> gives \<open>spd.x \<le> 0\<close>, top contact with \<open>spd.y \<le> 0\<close> gives
  \<open>spd.y \<ge> 0\<close>. The block changes neither position, radius nor the active flag.
\<close>

theorem wall_reflect_inward:
  shows "(vec_x (b_pos b) - b_radius b \<le> 0 \<or> screenWidth \<le> vec_x (b_pos b) + b_radius b \<longrightarrow>
            vec_x (b_spd (wall_reflect b)) = - vec_x (b_spd b)) \<and>
         (0 < vec_x (b_pos b) - b_radius b \<and> vec_x (b_pos b) + b_radius b < screenWidth \<longrightarrow>
            vec_x (b_spd (wall_reflect b)) = vec_x (b_spd b)) \<and>
         (vec_y (b_pos b) - b_radius b \<le> 0 \<longrightarrow>
            vec_y (b_spd (wall_reflect b)) = - vec_y (b_spd b)) \<and>
         (0 < vec_y (b_pos b) - b_radius b \<longrightarrow>
            vec_y (b_spd (wall_reflect b)) = vec_y (b_spd b)) \<and>
         (vec_x (b_pos b) - b_radius b \<le> 0 \<and> vec_x (b_spd b) \<le> 0 \<longrightarrow>
            0 \<le> vec_x (b_spd (wall_reflect b))) \<and>
         (screenWidth \<le> vec_x (b_pos b) + b_radius b \<and> 0 \<le> vec_x (b_spd b) \<longrightarrow>
            vec_x (b_spd (wall_reflect b)) \<le> 0) \<and>
         (vec_y (b_pos b) - b_radius b \<le> 0 \<and> vec_y (b_spd b) \<le> 0 \<longrightarrow>
            0 \<le> vec_y (b_spd (wall_reflect b))) \<and>
         b_pos (wall_reflect b) = b_pos b \<and> b_radius (wall_reflect b) = b_radius b \<and>
         b_active (wall_reflect b) = b_active b"
  by (auto simp: wall_reflect_def Let_def)

theorem wall_reflect_inward_witness:
  "vec_x (b_pos (ball_at 5 300 (- 7) 7 True)) - b_radius (ball_at 5 300 (- 7) 7 True) \<le> 0 \<and>
   vec_x (b_spd (ball_at 5 300 (- 7) 7 True)) \<le> 0 \<and>
   vec_x (b_spd (wall_reflect (ball_at 5 300 (- 7) 7 True))) = 7 \<and>
   vec_y (b_spd (wall_reflect (ball_at 5 300 (- 7) 7 True))) = 7 \<and>
   0 \<le> vec_x (b_spd (wall_reflect (ball_at 5 300 (- 7) 7 True))) \<and>
   screenWidth \<le> vec_x (b_pos (ball_at 949 300 7 7 True)) + b_radius (ball_at 949 300 7 7 True) \<and>
   0 \<le> vec_x (b_spd (ball_at 949 300 7 7 True)) \<and>
   vec_x (b_spd (wall_reflect (ball_at 949 300 7 7 True))) = - 7 \<and>
   vec_x (b_spd (wall_reflect (ball_at 949 300 7 7 True))) \<le> 0 \<and>
   vec_y (b_pos (ball_at 480 9 7 (- 7) True)) - b_radius (ball_at 480 9 7 (- 7) True) \<le> 0 \<and>
   vec_y (b_spd (ball_at 480 9 7 (- 7) True)) \<le> 0 \<and>
   vec_y (b_spd (wall_reflect (ball_at 480 9 7 (- 7) True))) = 7 \<and>
   vec_x (b_spd (wall_reflect (ball_at 480 9 7 (- 7) True))) = 7 \<and>
   0 \<le> vec_y (b_spd (wall_reflect (ball_at 480 9 7 (- 7) True)))"
proof -
  have pre: "vec_x (b_pos (ball_at 5 300 (- 7) 7 True)) - b_radius (ball_at 5 300 (- 7) 7 True) \<le> 0"
    "vec_x (b_spd (ball_at 5 300 (- 7) 7 True)) \<le> 0"
    "0 < vec_y (b_pos (ball_at 5 300 (- 7) 7 True)) - b_radius (ball_at 5 300 (- 7) 7 True)"
    "screenWidth \<le> vec_x (b_pos (ball_at 949 300 7 7 True)) + b_radius (ball_at 949 300 7 7 True)"
    "0 \<le> vec_x (b_spd (ball_at 949 300 7 7 True))"
    "vec_y (b_pos (ball_at 480 9 7 (- 7) True)) - b_radius (ball_at 480 9 7 (- 7) True) \<le> 0"
    "vec_y (b_spd (ball_at 480 9 7 (- 7) True)) \<le> 0"
    "0 < vec_x (b_pos (ball_at 480 9 7 (- 7) True)) - b_radius (ball_at 480 9 7 (- 7) True)"
    "vec_x (b_pos (ball_at 480 9 7 (- 7) True)) + b_radius (ball_at 480 9 7 (- 7) True) < screenWidth"
    by (simp_all add: ball_at_def)
  have spd: "vec_x (b_spd (ball_at 5 300 (- 7) 7 True)) = - 7"
    "vec_y (b_spd (ball_at 5 300 (- 7) 7 True)) = 7"
    "vec_x (b_spd (ball_at 949 300 7 7 True)) = 7"
    "vec_x (b_spd (ball_at 480 9 7 (- 7) True)) = 7"
    "vec_y (b_spd (ball_at 480 9 7 (- 7) True)) = - 7"
    by (simp_all add: ball_at_def)
  note L = wall_reflect_inward [of "ball_at 5 300 (- 7) 7 True"]
  note R = wall_reflect_inward [of "ball_at 949 300 7 7 True"]
  note T = wall_reflect_inward [of "ball_at 480 9 7 (- 7) True"]
  from L pre have l: "vec_x (b_spd (wall_reflect (ball_at 5 300 (- 7) 7 True))) =
        - vec_x (b_spd (ball_at 5 300 (- 7) 7 True))"
      "vec_y (b_spd (wall_reflect (ball_at 5 300 (- 7) 7 True))) =
        vec_y (b_spd (ball_at 5 300 (- 7) 7 True))"
    by blast+
  from R pre have r: "vec_x (b_spd (wall_reflect (ball_at 949 300 7 7 True))) =
        - vec_x (b_spd (ball_at 949 300 7 7 True))"
    by blast
  from T pre have t: "vec_y (b_spd (wall_reflect (ball_at 480 9 7 (- 7) True))) =
        - vec_y (b_spd (ball_at 480 9 7 (- 7) True))"
      "vec_x (b_spd (wall_reflect (ball_at 480 9 7 (- 7) True))) =
        vec_x (b_spd (ball_at 480 9 7 (- 7) True))"
    by blast+
  from pre show ?thesis
    unfolding l r t spd by simp
qed

subsection \<open>The paddle and the field\<close>

text \<open>
  C2 fails on the code, which clamps the paddle in the movement block only
  (\<^verbatim>\<open>// Prevent right edge\<close>) and not when \<open>apply_powerup\<close> widens it. In the
  state \<open>expand_pickup\<close> the paddle lies in the field, its right edge at 960; in the
  frame that collects the Expand powerup, with the right key held, the movement
  block leaves the paddle at 820 and the powerup block sets its width to 210: at the
  end of the frame the paddle reaches from 820 to 1030.

  The theorem starts at \<open>expand_pickup\<close>; that the frames \<open>expand_trace\<close> lead to it
  from process start, \<open>run hostE expand_trace = expand_pickup\<close>, is the result of
  evaluating \<open>run\<close> and is not among the theorems.
\<close>

theorem expand_overhang:
  "gameState expand_pickup = GAME_PLAYING \<and>
   vec_x (p_pos (player expand_pickup)) + vec_x (p_size (player expand_pickup)) = screenWidth \<and>
   vec_x (p_pos (player (update_game hostE hold_right expand_pickup))) = 820 \<and>
   vec_x (p_size (player (update_game hostE hold_right expand_pickup))) = 210 \<and>
   screenWidth < vec_x (p_pos (player (update_game hostE hold_right expand_pickup))) +
     vec_x (p_size (player (update_game hostE hold_right expand_pickup))) \<and>
   gameState (update_game hostE hold_right expand_pickup) = GAME_PLAYING"
proof -
  have g: "grid_ok (break_brick 4 9 (bricks fresh_game))"
    unfolding break_brick_def by (intro grid_ok_update grid_ok_fresh) simp
  let ?s1 = "launch_ball hostE hold_right (expand_decay hold_right (paddle_control hold_right expand_pickup))"
  have s1: "?s1 = expand_pickup"
    by (simp add: launch_ball_def expand_decay_def paddle_control_def expand_pickup_def Let_def
        hold_right_def no_keys_def ball_at_def)
  have s2: "fold (ball_step hostE) [0..<BALLS_MAX] expand_pickup = expand_pickup"
    by (simp add: upt_5 ball_step_def expand_pickup_def ball_at_def rest_ball_def)
  have s3: "life_loss expand_pickup = expand_pickup"
    by (simp add: life_loss_def expand_pickup_def)
  let ?s4 = "fold (powerup_step hostE) [0..<POWERUPS_MAX] expand_pickup"
  have first: "powerup_step hostE 0 expand_pickup =
      expand_pickup\<lparr>player := (player expand_pickup)\<lparr>p_expanded := True, p_expand_timer := 10,
           p_size := \<lparr>vec_x = 210, vec_y = 22\<rparr>\<rparr>,
         powerups := \<lparr>pu_pos = \<lparr>vec_x = 919, vec_y = 657\<rparr>, pu_spd = \<lparr>vec_x = 0, vec_y = 2\<rparr>,
                   pu_type = POWERUP_EXPAND, pu_active = False\<rparr> # replicate 9 no_powerup\<rparr>"
    by (simp add: powerup_step_def expand_pickup_def Let_def hostE_def spec_host_def
        rectIntersectsRect_def paddleRect_def apply_powerup_def)
  have others: "powerup_step hostE i t = t"
    if "i \<in> {1, 2, 3, 4, 5, 6, 7, 8, 9}" "powerups t =
        \<lparr>pu_pos = \<lparr>vec_x = 919, vec_y = 657\<rparr>, pu_spd = \<lparr>vec_x = 0, vec_y = 2\<rparr>,
                   pu_type = POWERUP_EXPAND, pu_active = False\<rparr> # replicate 9 no_powerup" for i t
    using that by (auto simp: powerup_step_def no_powerup_def numeral_eq_Suc)
  have s4: "?s4 = powerup_step hostE 0 expand_pickup"
    by (simp add: upt_10 others first)
  have s5: "win_check ?s4 = ?s4"
    unfolding s4 first by (simp add: win_check_def expand_pickup_def bricks_left [OF g])
  have sim: "simulate hostE hold_right expand_pickup = ?s4"
    unfolding simulate_def s1 s2 s3 by (rule s5)
  have playing: "gameState expand_pickup = GAME_PLAYING" "\<not> pause expand_pickup"
    "\<not> key_p_pressed hold_right"
    by (simp_all add: expand_pickup_def hold_right_def no_keys_def)
  then have "update_game hostE hold_right expand_pickup = ?s4"
    by (simp add: update_game_def sim)
  then show ?thesis
    by (simp add: s4 first) (simp add: expand_pickup_def)
qed

subsection \<open>The number of balls\<close>

text \<open>
  C3 fails on the code where the counter \<open>ballsCount\<close>, which guards the cloning, is
  not the number of active balls: the relaunch of the ball of slot 0 activates it and
  leaves the counter alone. In the state \<open>relaunch_state\<close> one ball is active and the
  counter is 1. The launch key relaunches the ball of slot 0 while the ball of slot 2,
  of the earlier MultiBall, is in flight: two balls are active and the counter stays
  at 1, in that frame and the five that follow. In the seventh frame the paddle
  collects a MultiBall powerup and, the counter being below 3, two balls are cloned:
  four balls are active. The pool keeps its 5 slots.

  The theorem starts at \<open>relaunch_state\<close>; that the frames \<open>relaunch_trace\<close> lead to
  it from process start, \<open>run hostM relaunch_trace = relaunch_state\<close>, is the result
  of evaluating \<open>run\<close> and is not among the theorems.
\<close>

theorem multi_ball_overflow:
  "gameState relaunch_state = GAME_PLAYING \<and>
   active_balls relaunch_state = 1 \<and> ballsCount relaunch_state = 1 \<and>
   active_balls (update_game hostM press_space relaunch_state) = 2 \<and>
   ballsCount (update_game hostM press_space relaunch_state) = 1 \<and>
   active_balls (frames hostM (press_space # replicate 5 no_keys) relaunch_state) = 2 \<and>
   ballsCount (frames hostM (press_space # replicate 5 no_keys) relaunch_state) = 1 \<and>
   active_balls (frames hostM (press_space # replicate 6 no_keys) relaunch_state) = 4 \<and>
   ballsCount (frames hostM (press_space # replicate 6 no_keys) relaunch_state) = 3 \<and>
   length (balls (frames hostM (press_space # replicate 6 no_keys) relaunch_state)) = BALLS_MAX \<and>
   gameState (frames hostM (press_space # replicate 6 no_keys) relaunch_state) = GAME_PLAYING"
proof -
  define falling :: "real \<Rightarrow> t_powerup list" where
    "falling d = [multi_powerup 343 (379 + d) True, multi_powerup 535 (643 + d) True,
       multi_powerup 247 (379 + d) True, multi_powerup 343 (331 + d) True,
       multi_powerup 439 (369 + d) True, multi_powerup 439 (329 + d) True,
       no_powerup, no_powerup, no_powerup, no_powerup]" for d
  define lost where "lost = ball_at 723 733 7 7 False"
  define flight where
    "flight n = multi_court [ball_at (449 - 7 * n) (649 - 7 * n) (- 7) (- 7) True, lost,
       ball_at (828 + 7 * n) (656 + 7 * n) 7 7 True, rest_ball, rest_ball] 1
       (falling (2 + 2 * n)) 12" for n :: real
  note keys = no_keys_def press_space_def
  note sels = ball_at_def rest_ball_def lost_def multi_powerup_def no_powerup_def
  have s0: "relaunch_state = multi_court [ball_at 821 733 7 7 False, lost,
      ball_at 821 649 7 7 True, rest_ball, rest_ball] 1 (falling 0) 11"
    by (simp add: relaunch_state_def falling_def lost_def)
  have fall: "fold (powerup_step hostM) [0..<POWERUPS_MAX] (multi_court bs bc (falling d) gc) =
      multi_court bs bc (falling (d + 2)) gc" if "d < 11" for bs bc d gc
    using that
    by (simp add: upt_10 falling_def multi_court_powerup_fall multi_court_powerup_idle
        hostM_facts sels add.commute)
  have f1: "update_game hostM press_space relaunch_state = flight 0"
    unfolding s0 flight_def
    by (simp add: multi_court_frame multi_court_pre multi_court_launch multi_court_ball_step
        multi_court_ball_idle multi_court_life multi_court_win fall hostM_facts upt_5 keys sels
        move_ball_def)
  have quiet: "update_game hostM no_keys (flight n) = flight (n + 1)" if "0 \<le> n" "n \<le> 4" for n
    using that unfolding flight_def
    by (simp add: multi_court_frame multi_court_pre multi_court_launch_idle multi_court_ball_step
        multi_court_ball_idle multi_court_life multi_court_win fall hostM_facts upt_5 keys sels
        move_ball_def algebra_simps)
  have f6: "frames hostM (press_space # replicate 5 no_keys) relaunch_state = flight 5"
    using quiet [of 0] quiet [of 1] quiet [of 2] quiet [of 3] quiet [of 4]
    by (simp add: frames_def f1 numeral_eq_Suc)
  define B where "B = [ball_at 407 607 (- 7) (- 7) True, lost, ball_at 870 698 7 7 True,
      rest_ball, rest_ball]"
  define B4 where "B4 = [ball_at 407 607 (- 7) (- 7) True, ball_at 407 607 7 (- 7) True,
      ball_at 870 698 7 7 True, ball_at 407 607 (- 7) (- 7) True, rest_ball]"
  have clone: "multi_ball hostM [0..<BALLS_MAX] (multi_court B 1 pus 12) = multi_court B4 3 pus 14"
    for pus
    by (simp add: upt_5 clone_ball_def B_def B4_def sels hostM_facts Let_def)
  have pick: "powerup_step hostM (Suc 0) (multi_court B 1 pus 12) =
      multi_court B4 3 (pus[Suc 0 := multi_powerup 535 657 False]) 14"
    if "Suc 0 < length pus" "pus ! Suc 0 = multi_powerup 535 655 True" for pus
    using multi_court_powerup_pick [of "Suc 0" pus hostM B 1 12 B4 3 14] that clone
    by (simp add: sels hostM_facts)
  have f7: "update_game hostM no_keys (flight 5) =
      multi_court B4 3 [multi_powerup 343 393 True, multi_powerup 535 657 False,
        multi_powerup 247 393 True, multi_powerup 343 345 True,
        multi_powerup 439 383 True, multi_powerup 439 343 True,
        no_powerup, no_powerup, no_powerup, no_powerup] 14"
  proof -
    have b: "fold (ball_step hostM) [0..<BALLS_MAX] (flight 5) = multi_court B 1 (falling 12) 12"
      unfolding flight_def B_def
      by (simp add: multi_court_ball_step multi_court_ball_idle hostM_facts upt_5 sels
          move_ball_def)
    have l: "life_loss (multi_court B 1 pus 12) = multi_court B 1 pus 12" for pus
      by (simp add: multi_court_life B_def sels)
    have p: "fold (powerup_step hostM) [0..<POWERUPS_MAX] (multi_court B 1 (falling 12) 12) =
      multi_court B4 3 [multi_powerup 343 393 True, multi_powerup 535 657 False,
        multi_powerup 247 393 True, multi_powerup 343 345 True,
        multi_powerup 439 383 True, multi_powerup 439 343 True,
        no_powerup, no_powerup, no_powerup, no_powerup] 14"
      by (simp add: upt_10 falling_def multi_court_powerup_fall multi_court_powerup_idle pick
          hostM_facts multi_powerup_def no_powerup_def)
    have pre: "launch_ball hostM no_keys (expand_decay no_keys (paddle_control no_keys (flight 5))) =
        flight 5"
      unfolding flight_def
      by (simp add: multi_court_pre multi_court_launch_idle keys sels)
    have "update_game hostM no_keys (flight 5) =
        win_check (fold (powerup_step hostM) [0..<POWERUPS_MAX]
          (life_loss (fold (ball_step hostM) [0..<BALLS_MAX]
             (launch_ball hostM no_keys (expand_decay no_keys (paddle_control no_keys (flight 5)))))))"
      unfolding flight_def by (rule multi_court_frame) (simp add: keys)
    then show ?thesis
      unfolding pre b l p by (simp only: multi_court_win)
  qed
  have f8: "frames hostM (press_space # replicate 6 no_keys) relaunch_state =
      multi_court B4 3 [multi_powerup 343 393 True, multi_powerup 535 657 False,
        multi_powerup 247 393 True, multi_powerup 343 345 True,
        multi_powerup 439 383 True, multi_powerup 439 343 True,
        no_powerup, no_powerup, no_powerup, no_powerup] 14"
    using quiet [of 0] quiet [of 1] quiet [of 2] quiet [of 3] quiet [of 4] f7
    by (simp add: frames_def f1 numeral_eq_Suc)
  show ?thesis
    unfolding f8 f6 f1
    by (simp add: active_balls_def flight_def B4_def sels) (simp add: s0 active_balls_def sels)
qed

end
